theory Spec2Isabelle
  imports Main "HOL-Library.Word"
begin

unbundle bit_operations_syntax

section \<open>WASM Invaders: the frame-tick simulation of \<open>wasminvaders/src/main.c\<close>\<close>

text \<open>
  The C globals become one record \<open>game\<close>, and every C function that mutates them becomes
  a function from \<open>game\<close> to \<open>game\<close>. Conventions of the embedding:
  \<^item> C \<open>int\<close> is HOL \<open>int\<close>: signed overflow is undefined in C and no value of the game
    comes near the 32-bit bounds, so the arithmetic is written without wrap-around;
  \<^item> \<open>uint32_t random_seed\<close> is a \<open>32 word\<close>, whose multiplication and addition wrap as
    the C ones do;
  \<^item> the \<open>uint8_t\<close> flags \<open>active\<close> and \<open>alive\<close>, and the int flag \<open>playing_wave_jingle\<close>,
    only ever hold \<open>TRUE\<close> or \<open>FALSE\<close> and are \<open>bool\<close>;
  \<^item> the fixed arrays are lists: \<open>aliens\<close> and \<open>explosions\<close> of length \<open>TOTAL_ALIENS\<close>,
    \<open>stars\<close> of length \<open>STAR_COUNT\<close>;
  \<^item> the drawing calls (\<open>blit\<close>, \<open>rect\<close>, \<open>text\<close>, \<open>DRAW_COLORS\<close>, the palette) write to the
    console only and are left out; the calls of \<open>tone\<close> are recorded, in order, in the
    field \<open>tones\<close>;
  \<^item> the memory-mapped inputs \<open>*GAMEPAD1\<close> and \<open>*MOUSE_BUTTONS\<close> are parameters of a frame;
  \<^item> a function that calls \<open>random_int\<close> returns an option: \<open>None\<close> is the trap of a
    remainder by zero. \<open>start\<close> and \<open>update\<close> are proved never to trap.
\<close>

subsection \<open>Constants\<close>

definition PLAYER_SPEED :: int where "PLAYER_SPEED = 2"
definition BULLET_SPEED :: int where "BULLET_SPEED = 4"
definition ALIEN_COLS :: int where "ALIEN_COLS = 8"
definition ALIEN_ROWS :: int where "ALIEN_ROWS = 6"
definition TOTAL_ALIENS :: nat where "TOTAL_ALIENS = nat (ALIEN_COLS * ALIEN_ROWS)"
definition STAR_COUNT :: nat where "STAR_COUNT = 50"
definition EXPLOSION_DURATION :: int where "EXPLOSION_DURATION = 10"
definition GAME_STATE_MENU :: int where "GAME_STATE_MENU = 0"
definition GAME_STATE_PLAYING :: int where "GAME_STATE_PLAYING = 1"
definition MOUSE_BUTTON_LEFT :: "8 word" where "MOUSE_BUTTON_LEFT = 1"
definition NOTE_C5 :: int where "NOTE_C5 = 523"
definition NOTE_E5 :: int where "NOTE_E5 = 659"
definition NOTE_G5 :: int where "NOTE_G5 = 784"
definition NOTE_C6 :: int where "NOTE_C6 = 1047"
definition NOTE_REST :: int where "NOTE_REST = 0"
definition DURATION_HALF :: int where "DURATION_HALF = 30"
definition DURATION_QUARTER :: int where "DURATION_QUARTER = 15"
definition DURATION_EIGHTH :: int where "DURATION_EIGHTH = 7"

text \<open>
  Modelled from the spec: the console header \<open>wasm4.h\<close> is not among the sources. The spec
  (section 6) names the bits \<open>BUTTON_1\<close>, \<open>BUTTON_LEFT\<close> and \<open>BUTTON_RIGHT\<close> of the
  \<open>GAMEPAD1\<close> byte and the waveforms pulse, triangle and noise of \<open>tone\<close>; the values are
  those of the WASM-4 console. No theorem below depends on the values chosen, only on the
  names.
\<close>

definition BUTTON_1 :: "8 word" where "BUTTON_1 = 1"
definition BUTTON_LEFT :: "8 word" where "BUTTON_LEFT = 16"
definition BUTTON_RIGHT :: "8 word" where "BUTTON_RIGHT = 32"
definition TONE_PULSE1 :: int where "TONE_PULSE1 = 0"
definition TONE_TRIANGLE :: int where "TONE_TRIANGLE = 2"
definition TONE_NOISE :: int where "TONE_NOISE = 3"

subsection \<open>Data model\<close>

record Star =
  s_x :: int
  s_y :: int
  speed :: int

record Player =
  p_x :: int
  p_y :: int

record Bullet =
  b_x :: int
  b_y :: int
  b_active :: bool

record Alien =
  a_x :: int
  a_y :: int
  alive :: bool

record Explosion =
  e_x :: int
  e_y :: int
  life :: int
  e_active :: bool

text \<open>One call \<open>tone(frequency, duration, volume, flags)\<close>.\<close>

datatype sound = Tone int int int int

record game =
  player :: Player
  player_bullet :: Bullet
  aliens :: "Alien list"
  stars :: "Star list"
  game_state :: int
  alien_direction :: int
  alien_timer :: int
  current_alien_move_delay :: int
  score :: int
  random_seed :: "32 word"
  aliens_left :: int
  current_wave :: int
  current_alien_rows :: int
  current_alien_cols :: int
  explosions :: "Explosion list"
  current_jingle_note_index :: int
  jingle_note_timer :: int
  playing_wave_jingle :: bool
  tones :: "sound list"

subsection \<open>The random number generator\<close>

text \<open>
  \<open>random_int\<close> reads and writes the global \<open>random_seed\<close> only, which is passed in and
  returned. The remainder \<open>%\<close> on \<open>uint32_t\<close> traps when the divisor
  \<open>(uint32_t)(max - min + 1)\<close> is zero: the result is then \<open>None\<close>.
\<close>

definition random_int :: "int \<Rightarrow> int \<Rightarrow> 32 word \<Rightarrow> (int \<times> 32 word) option" where
  "random_int mn mx seed =
     (let seed' = (seed * 1103515245 + 12345) AND 0x7fffffff;
          m = (word_of_int (mx - mn + 1) :: 32 word)
      in if m = 0 then None else Some (mn + sint (seed' mod m), seed'))"

text \<open>The recurrence of the spec (section 4.1), to state what a run of calls returns.\<close>

definition lcg :: "32 word \<Rightarrow> 32 word" where
  "lcg seed = (seed * 1103515245 + 12345) AND 0x7fffffff"

text \<open>
  A sequence of calls \<open>random_int(min\<^sub>1, max\<^sub>1); random_int(min\<^sub>2, max\<^sub>2); ...\<close>: the values
  returned, in order, and the seed left behind.
\<close>

fun random_ints :: "(int \<times> int) list \<Rightarrow> 32 word \<Rightarrow> (int list \<times> 32 word) option" where
  "random_ints [] seed = Some ([], seed)"
| "random_ints ((mn, mx) # rs) seed =
     (case random_int mn mx seed of
        None \<Rightarrow> None
      | Some (v, seed') \<Rightarrow>
          (case random_ints rs seed' of
             None \<Rightarrow> None
           | Some (vs, seed'') \<Rightarrow> Some (v # vs, seed'')))"


subsection \<open>Utilities and a loop that may trap\<close>

definition minimum :: "int \<Rightarrow> int \<Rightarrow> int" where
  "minimum a b = (if a < b then a else b)"

text \<open>
  \<open>for (int i = ...; ...; ++i) body(i)\<close> over the given indices, for a body that calls
  \<open>random_int\<close> and so may trap.
\<close>

fun for_each :: "(nat \<Rightarrow> 's \<Rightarrow> 's option) \<Rightarrow> nat list \<Rightarrow> 's \<Rightarrow> 's option" where
  "for_each body [] s = Some s"
| "for_each body (i # is) s =
     (case body i s of None \<Rightarrow> None | Some s' \<Rightarrow> for_each body is s')"

subsection \<open>Initialisation\<close>

text \<open>
  The body of the loop of \<open>init_stars\<close>. The three initialisers are evaluated in the
  order they are written.
\<close>

definition init_star :: "nat \<Rightarrow> game \<Rightarrow> game option" where
  "init_star i s =
     (case random_int 0 159 (random_seed s) of
        None \<Rightarrow> None
      | Some (x, seed1) \<Rightarrow>
     (case random_int 0 159 seed1 of
        None \<Rightarrow> None
      | Some (y, seed2) \<Rightarrow>
     (case random_int 1 3 seed2 of
        None \<Rightarrow> None
      | Some (sp, seed3) \<Rightarrow>
          Some (s\<lparr>stars := (stars s)[i := \<lparr>s_x = x, s_y = y, speed = sp\<rparr>],
                  random_seed := seed3\<rparr>))))"

definition init_stars :: "game \<Rightarrow> game option" where
  "init_stars s = for_each init_star [0..<STAR_COUNT] s"

text \<open>The body of the nested loop of \<open>init_aliens\<close>, at row \<open>y\<close> and column \<open>x\<close>.\<close>

definition place_alien :: "nat \<Rightarrow> nat \<Rightarrow> game \<Rightarrow> game" where
  "place_alien y x s =
     (let index = y * nat ALIEN_COLS + x;
          s = s\<lparr>aliens := (aliens s)[index :=
                 \<lparr>a_x = 20 + int x * 12, a_y = 20 + int y * 12, alive = True\<rparr>]\<rparr>
      in s\<lparr>aliens_left := aliens_left s + 1\<rparr>)"

definition init_aliens :: "game \<Rightarrow> game" where
  "init_aliens s0 =
     (let s = s0\<lparr>aliens_left := 0\<rparr>;
          s = (if current_alien_rows s > ALIEN_ROWS
               then s\<lparr>current_alien_rows := ALIEN_ROWS\<rparr> else s);
          s = (if current_alien_cols s > ALIEN_COLS
               then s\<lparr>current_alien_cols := ALIEN_COLS\<rparr> else s);
          s = fold (\<lambda>y. fold (\<lambda>x. place_alien y x) [0..<nat (current_alien_cols s)])
                [0..<nat (current_alien_rows s)] s;
          s = fold (\<lambda>i s. s\<lparr>aliens := (aliens s)[i := (aliens s ! i)\<lparr>alive := False\<rparr>]\<rparr>)
                [nat (aliens_left s)..<TOTAL_ALIENS] s
      in s)"

text \<open>The loop of \<open>create_explosion\<close> from slot \<open>i\<close> on; \<open>break\<close> ends it.\<close>

function create_explosion_from :: "nat \<Rightarrow> int \<Rightarrow> int \<Rightarrow> game \<Rightarrow> game" where
  "create_explosion_from i x y s =
     (if i < TOTAL_ALIENS then
        (if \<not> e_active (explosions s ! i)
         then s\<lparr>explosions := (explosions s)[i := (explosions s ! i)
                  \<lparr>e_x := x, e_y := y, life := EXPLOSION_DURATION, e_active := True\<rparr>]\<rparr>
         else create_explosion_from (Suc i) x y s)
      else s)"
  by pat_completeness auto
termination
  by (relation "measure (\<lambda>(i, x, y, s). TOTAL_ALIENS - i)") auto

declare create_explosion_from.simps [simp del]

definition create_explosion :: "int \<Rightarrow> int \<Rightarrow> game \<Rightarrow> game" where
  "create_explosion x y s = create_explosion_from 0 x y s"

definition start :: "game \<Rightarrow> game option" where
  "start s0 =
     (case init_stars s0 of
        None \<Rightarrow> None
      | Some s \<Rightarrow>
          (let s = s\<lparr>current_wave := 1\<rparr>;
               s = s\<lparr>current_alien_rows := 1\<rparr>;
               s = s\<lparr>current_alien_cols := ALIEN_COLS\<rparr>;
               s = init_aliens s;
               s = s\<lparr>player := (player s)\<lparr>p_x := 76\<rparr>\<rparr>;
               s = s\<lparr>player := (player s)\<lparr>p_y := 140\<rparr>\<rparr>;
               s = s\<lparr>player_bullet := (player_bullet s)\<lparr>b_active := False\<rparr>\<rparr>;
               s = s\<lparr>game_state := GAME_STATE_MENU\<rparr>;
               s = s\<lparr>explosions := map (\<lambda>e. e\<lparr>e_active := False\<rparr>) (explosions s)\<rparr>;
               s = s\<lparr>current_alien_move_delay := 20\<rparr>
           in Some (s\<lparr>alien_timer := current_alien_move_delay s\<rparr>)))"

text \<open>
  The globals as the C initialisers leave them when the cartridge is loaded: the ones
  without an initialiser are zero.
\<close>

definition initial_game :: game where
  "initial_game =
     \<lparr>player = \<lparr>p_x = 0, p_y = 0\<rparr>,
      player_bullet = \<lparr>b_x = 0, b_y = 0, b_active = False\<rparr>,
      aliens = replicate TOTAL_ALIENS \<lparr>a_x = 0, a_y = 0, alive = False\<rparr>,
      stars = replicate STAR_COUNT \<lparr>s_x = 0, s_y = 0, speed = 0\<rparr>,
      game_state = 0,
      alien_direction = 1,
      alien_timer = 20,
      current_alien_move_delay = 20,
      score = 0,
      random_seed = 1,
      aliens_left = 0,
      current_wave = 1,
      current_alien_rows = 0,
      current_alien_cols = 0,
      explosions = replicate TOTAL_ALIENS \<lparr>e_x = 0, e_y = 0, life = 0, e_active = False\<rparr>,
      current_jingle_note_index = 0,
      jingle_note_timer = 0,
      playing_wave_jingle = False,
      tones = []\<rparr>"

subsection \<open>Game logic\<close>

definition wave_jingle_melody :: "int list" where
  "wave_jingle_melody =
     [NOTE_C5, DURATION_EIGHTH,
      NOTE_E5, DURATION_EIGHTH,
      NOTE_G5, DURATION_QUARTER,
      NOTE_C6, DURATION_HALF,
      NOTE_REST, DURATION_EIGHTH]"

definition wave_jingle_length :: int where
  "wave_jingle_length = int (length wave_jingle_melody)"

definition play_wave_jingle :: "game \<Rightarrow> game" where
  "play_wave_jingle s =
     (if \<not> playing_wave_jingle s then s
      else if jingle_note_timer s > 0 then s\<lparr>jingle_note_timer := jingle_note_timer s - 1\<rparr>
      else if current_jingle_note_index s < wave_jingle_length then
        (let frequency = wave_jingle_melody ! nat (current_jingle_note_index s);
             duration_frames = wave_jingle_melody ! nat (current_jingle_note_index s + 1);
             s = (if frequency \<noteq> NOTE_REST
                  then s\<lparr>tones := tones s @ [Tone frequency duration_frames 100 TONE_TRIANGLE]\<rparr>
                  else s);
             s = s\<lparr>jingle_note_timer := duration_frames\<rparr>
         in s\<lparr>current_jingle_note_index := current_jingle_note_index s + 2\<rparr>)
      else s\<lparr>playing_wave_jingle := False, tones := tones s @ [Tone 0 0 0 0]\<rparr>)"

definition update_player :: "8 word \<Rightarrow> game \<Rightarrow> game" where
  "update_player gamepad s0 =
     (let s = (if gamepad AND BUTTON_LEFT \<noteq> 0
               then s0\<lparr>player := (player s0)\<lparr>p_x := p_x (player s0) - PLAYER_SPEED\<rparr>\<rparr> else s0);
          s = (if gamepad AND BUTTON_RIGHT \<noteq> 0
               then s\<lparr>player := (player s)\<lparr>p_x := p_x (player s) + PLAYER_SPEED\<rparr>\<rparr> else s);
          s = (if p_x (player s) < 0 then s\<lparr>player := (player s)\<lparr>p_x := 0\<rparr>\<rparr> else s);
          s = (if p_x (player s) > 160 - 8
               then s\<lparr>player := (player s)\<lparr>p_x := 160 - 8\<rparr>\<rparr> else s)
      in if gamepad AND BUTTON_1 \<noteq> 0 \<and> \<not> b_active (player_bullet s)
         then s\<lparr>player_bullet := (player_bullet s)
                  \<lparr>b_x := p_x (player s) + 3, b_y := p_y (player s), b_active := True\<rparr>,
                tones := tones s @ [Tone 1000 10 50 TONE_PULSE1]\<rparr>
         else s)"

definition update_player_bullet :: "game \<Rightarrow> game" where
  "update_player_bullet s0 =
     (if b_active (player_bullet s0) then
        (let s = s0\<lparr>player_bullet := (player_bullet s0)
                       \<lparr>b_y := b_y (player_bullet s0) - BULLET_SPEED\<rparr>\<rparr>
         in if b_y (player_bullet s) < 0
            then s\<lparr>player_bullet := (player_bullet s)\<lparr>b_active := False\<rparr>\<rparr>
            else s)
      else s0)"

text \<open>
  The scan of \<open>update_aliens\<close> for an alive alien at the edge, from slot \<open>i\<close> on: the
  value is that of \<open>move_down\<close> after the loop.
\<close>

function edge_reached_from :: "nat \<Rightarrow> game \<Rightarrow> bool" where
  "edge_reached_from i s =
     (if i < TOTAL_ALIENS then
        (if alive (aliens s ! i) \<and>
            ((a_x (aliens s ! i) \<ge> 160 - 8 \<and> alien_direction s > 0) \<or>
             (a_x (aliens s ! i) \<le> 0 \<and> alien_direction s < 0))
         then True
         else edge_reached_from (Suc i) s)
      else False)"
  by pat_completeness auto
termination
  by (relation "measure (\<lambda>(i, s). TOTAL_ALIENS - i)") auto

declare edge_reached_from.simps [simp del]

definition update_aliens :: "game \<Rightarrow> game" where
  "update_aliens s0 =
     (let s = s0\<lparr>alien_timer := alien_timer s0 - 1\<rparr>
      in if alien_timer s \<le> 0 then
           (let s = s\<lparr>alien_timer := current_alien_move_delay s\<rparr>;
                move_down = edge_reached_from 0 s
            in if move_down
               then s\<lparr>alien_direction := alien_direction s * (- 1),
                      aliens := map (\<lambda>a. a\<lparr>a_y := a_y a + 5\<rparr>) (aliens s)\<rparr>
               else s\<lparr>aliens := map (\<lambda>a. a\<lparr>a_x := a_x a + alien_direction s * 5\<rparr>) (aliens s)\<rparr>)
         else s)"

definition update_explosions :: "game \<Rightarrow> game" where
  "update_explosions s =
     s\<lparr>explosions :=
         map (\<lambda>e. if e_active e
                   then (let e = e\<lparr>life := life e - 1\<rparr>
                         in if life e \<le> 0 then e\<lparr>e_active := False\<rparr> else e)
                   else e)
           (explosions s)\<rparr>"

text \<open>What \<open>check_collisions\<close> does when the bullet overlaps the alive alien of slot \<open>i\<close>.\<close>

definition bullet_hit :: "nat \<Rightarrow> game \<Rightarrow> game" where
  "bullet_hit i s0 =
     (let s = s0\<lparr>aliens := (aliens s0)[i := (aliens s0 ! i)\<lparr>alive := False\<rparr>]\<rparr>;
          s = create_explosion (a_x (aliens s ! i)) (a_y (aliens s ! i)) s;
          s = s\<lparr>player_bullet := (player_bullet s)\<lparr>b_active := False\<rparr>\<rparr>;
          s = s\<lparr>score := score s + 10\<rparr>;
          s = s\<lparr>aliens_left := aliens_left s - 1\<rparr>
      in s\<lparr>tones := tones s @ [Tone 200 15 80 TONE_NOISE]\<rparr>)"

function check_collisions_from :: "nat \<Rightarrow> game \<Rightarrow> game" where
  "check_collisions_from i s =
     (if i < TOTAL_ALIENS then
        (if alive (aliens s ! i) \<and>
            b_x (player_bullet s) < a_x (aliens s ! i) + 8 \<and>
            b_x (player_bullet s) + 2 > a_x (aliens s ! i) \<and>
            b_y (player_bullet s) < a_y (aliens s ! i) + 8 \<and>
            b_y (player_bullet s) + 4 > a_y (aliens s ! i)
         then bullet_hit i s
         else check_collisions_from (Suc i) s)
      else s)"
  by pat_completeness auto
termination
  by (relation "measure (\<lambda>(i, s). TOTAL_ALIENS - i)") auto

declare check_collisions_from.simps [simp del]

definition check_collisions :: "game \<Rightarrow> game" where
  "check_collisions s =
     (if \<not> b_active (player_bullet s) then s else check_collisions_from 0 s)"

definition next_wave :: "game \<Rightarrow> game" where
  "next_wave s0 =
     (let s = s0\<lparr>current_wave := current_wave s0 + 1\<rparr>;
          s = s\<lparr>current_alien_move_delay := 20 - (current_wave s * 3)\<rparr>;
          s = (if current_alien_move_delay s < 5
               then s\<lparr>current_alien_move_delay := 4\<rparr> else s);
          s = s\<lparr>alien_timer := current_alien_move_delay s\<rparr>;
          s = s\<lparr>current_alien_cols := ALIEN_COLS\<rparr>;
          s = s\<lparr>current_alien_rows := (current_wave s + 1) div 2\<rparr>;
          s = (if current_alien_rows s > ALIEN_ROWS
               then s\<lparr>current_alien_rows := ALIEN_ROWS\<rparr> else s);
          s = init_aliens s;
          s = s\<lparr>alien_direction := 1\<rparr>
      in s\<lparr>current_jingle_note_index := 0, jingle_note_timer := 0,
            playing_wave_jingle := True\<rparr>)"

text \<open>What \<open>check_player_collision\<close> does when an alive alien overlaps the player.\<close>

definition game_over :: "game \<Rightarrow> game" where
  "game_over s0 =
     (let s = s0\<lparr>game_state := GAME_STATE_MENU\<rparr>;
          s = s\<lparr>tones := tones s @ [Tone 50 60 100 TONE_TRIANGLE]\<rparr>;
          s = init_aliens s;
          s = s\<lparr>player := (player s)\<lparr>p_x := 76\<rparr>\<rparr>;
          s = s\<lparr>player_bullet := (player_bullet s)\<lparr>b_active := False\<rparr>\<rparr>;
          s = s\<lparr>score := 0\<rparr>;
          s = s\<lparr>alien_timer := 20\<rparr>;
          s = s\<lparr>alien_direction := 1\<rparr>;
          s = s\<lparr>current_wave := 1\<rparr>;
          s = s\<lparr>current_alien_rows := 3\<rparr>
      in s\<lparr>current_alien_cols := ALIEN_COLS\<rparr>)"

function check_player_collision_from :: "nat \<Rightarrow> game \<Rightarrow> game" where
  "check_player_collision_from i s =
     (if i < TOTAL_ALIENS then
        (if alive (aliens s ! i) \<and>
            p_x (player s) < a_x (aliens s ! i) + 8 \<and>
            p_x (player s) + 8 > a_x (aliens s ! i) \<and>
            p_y (player s) < a_y (aliens s ! i) + 8 \<and>
            p_y (player s) + 8 > a_y (aliens s ! i)
         then game_over s
         else check_player_collision_from (Suc i) s)
      else s)"
  by pat_completeness auto
termination
  by (relation "measure (\<lambda>(i, s). TOTAL_ALIENS - i)") auto

declare check_player_collision_from.simps [simp del]

definition check_player_collision :: "game \<Rightarrow> game" where
  "check_player_collision s = check_player_collision_from 0 s"

subsection \<open>Drawing that changes the state\<close>

text \<open>The body of the loop of \<open>draw_background_stars\<close>.\<close>

definition move_star :: "nat \<Rightarrow> game \<Rightarrow> game option" where
  "move_star i s0 =
     (let s = s0\<lparr>stars := (stars s0)[i := (stars s0 ! i)
                  \<lparr>s_y := s_y (stars s0 ! i) + minimum (speed (stars s0 ! i)) 2\<rparr>]\<rparr>
      in if s_y (stars s ! i) > 160 then
           (let s = s\<lparr>stars := (stars s)[i := (stars s ! i)\<lparr>s_y := 0\<rparr>]\<rparr>
            in case random_int 0 159 (random_seed s) of
                 None \<Rightarrow> None
               | Some (x, seed') \<Rightarrow>
                   Some (s\<lparr>stars := (stars s)[i := (stars s ! i)\<lparr>s_x := x\<rparr>],
                           random_seed := seed'\<rparr>))
         else Some s)"

definition draw_background_stars :: "game \<Rightarrow> game option" where
  "draw_background_stars s = for_each move_star [0..<STAR_COUNT] s"

text \<open>
  The body of the loop of \<open>draw_explosions\<close>: an active explosion draws six random
  offsets, which only the rectangles see.
\<close>

definition draw_explosion :: "nat \<Rightarrow> game \<Rightarrow> game option" where
  "draw_explosion i s =
     (if e_active (explosions s ! i) then
        (case random_ints [(- 2, 2), (- 2, 2), (- 3, 3), (- 3, 3), (- 1, 1), (- 1, 1)]
                (random_seed s) of
           None \<Rightarrow> None
         | Some (offsets, seed') \<Rightarrow> Some (s\<lparr>random_seed := seed'\<rparr>))
      else Some s)"

definition draw_explosions :: "game \<Rightarrow> game option" where
  "draw_explosions s = for_each draw_explosion [0..<TOTAL_ALIENS] s"

subsection \<open>Menu and frame\<close>

definition update_menu :: "8 word \<Rightarrow> 8 word \<Rightarrow> game \<Rightarrow> game" where
  "update_menu gamepad mouse_buttons s0 =
     (if gamepad AND BUTTON_1 \<noteq> 0 \<or> mouse_buttons AND MOUSE_BUTTON_LEFT \<noteq> 0 then
        (let s = s0\<lparr>game_state := GAME_STATE_PLAYING\<rparr>;
             s = init_aliens s;
             s = s\<lparr>score := 0\<rparr>;
             s = s\<lparr>player := (player s)\<lparr>p_x := 76\<rparr>\<rparr>
         in s\<lparr>player_bullet := (player_bullet s)\<lparr>b_active := False\<rparr>\<rparr>)
      else s0)"

text \<open>
  One frame. \<open>draw_score\<close> and \<open>draw_wave\<close> format into local buffers and draw, and change
  no global.
\<close>

definition update :: "8 word \<Rightarrow> 8 word \<Rightarrow> game \<Rightarrow> game option" where
  "update gamepad mouse_buttons s0 =
     (case draw_background_stars s0 of
        None \<Rightarrow> None
      | Some s \<Rightarrow>
          if game_state s = GAME_STATE_MENU then Some (update_menu gamepad mouse_buttons s)
          else if game_state s = GAME_STATE_PLAYING then
            (let s = update_player gamepad s;
                 s = update_player_bullet s;
                 s = update_aliens s;
                 s = check_collisions s;
                 s = check_player_collision s;
                 s = play_wave_jingle s;
                 s = update_explosions s
             in case draw_explosions s of
                  None \<Rightarrow> None
                | Some s \<Rightarrow> Some (if aliens_left s \<le> 0 then next_wave s else s))
          else Some s)"

text \<open>
  The states of the game: the console calls \<open>start\<close> once on the loaded cartridge, then
  \<open>update\<close> once a frame with whatever the gamepad and the mouse hold.
\<close>

inductive reachable :: "game \<Rightarrow> bool" where
  reachable_start: "start initial_game = Some s \<Longrightarrow> reachable s"
| reachable_update: "reachable s \<Longrightarrow> update gamepad mouse_buttons s = Some s' \<Longrightarrow> reachable s'"

text \<open>
  A run of frames, one pair of gamepad and mouse bytes per frame: the states at the end of
  each frame.
\<close>

fun run_frames :: "(8 word \<times> 8 word) list \<Rightarrow> game \<Rightarrow> game list option" where
  "run_frames [] s = Some []"
| "run_frames ((gamepad, mouse_buttons) # inputs) s =
     (case update gamepad mouse_buttons s of
        None \<Rightarrow> None
      | Some s' \<Rightarrow>
          (case run_frames inputs s' of None \<Rightarrow> None | Some ss \<Rightarrow> Some (s' # ss)))"

subsection \<open>Notions used to state the properties\<close>

text \<open>The value of the call number \<open>k\<close> (from 0) of a run that starts at \<open>seed\<close>.\<close>

definition nth_random :: "(int \<times> int) list \<Rightarrow> 32 word \<Rightarrow> nat \<Rightarrow> int" where
  "nth_random rs seed k =
     fst (rs ! k) + uint ((lcg ^^ Suc k) seed) mod (snd (rs ! k) - fst (rs ! k) + 1)"

text \<open>The number of alive aliens.\<close>

definition alive_count :: "game \<Rightarrow> int" where
  "alive_count s = int (length (filter alive (aliens s)))"

text \<open>
  Loop invariants of \<open>init_aliens\<close>: after \<open>k\<close> placements the first \<open>k\<close> slots are alive and
  counted; while the rest is cleared, the slots from \<open>k\<close> up to \<open>i\<close> are dead.
\<close>

definition placed :: "nat \<Rightarrow> game \<Rightarrow> bool" where
  "placed k s \<longleftrightarrow> length (aliens s) = TOTAL_ALIENS \<and> aliens_left s = int k \<and>
     (\<forall>j<k. alive (aliens s ! j))"

definition cleared :: "nat \<Rightarrow> nat \<Rightarrow> game \<Rightarrow> bool" where
  "cleared k i s \<longleftrightarrow> placed k s \<and> (\<forall>j. k \<le> j \<and> j < i \<longrightarrow> \<not> alive (aliens s ! j))"

text \<open>
  The invariant of the frames: the arrays have their sizes and the jingle cursor is even and
  at most the length of the melody (so that every array access of a frame is in range), all
  \<open>ALIEN_COLS\<close> columns are in use, \<open>aliens_left\<close> counts the alive aliens, the player is in
  its row and on the screen, the formation moves left or right, and the step delay is at
  least 4.
\<close>

definition game_inv :: "game \<Rightarrow> bool" where
  "game_inv s \<longleftrightarrow>
     length (aliens s) = TOTAL_ALIENS \<and>
     length (explosions s) = TOTAL_ALIENS \<and>
     length (stars s) = STAR_COUNT \<and>
     current_jingle_note_index s \<in> {0, 2, 4, 6, 8, 10} \<and>
     current_alien_cols s = ALIEN_COLS \<and>
     aliens_left s = alive_count s \<and>
     p_y (player s) = 140 \<and> 0 \<le> p_x (player s) \<and> p_x (player s) \<le> 152 \<and>
     (alien_direction s = 1 \<or> alien_direction s = - 1) \<and>
     4 \<le> current_alien_move_delay s"

subsection \<open>States used as examples\<close>

text \<open>
  A formation ten steps to the right of where wave 1 starts: the eight aliens of row 0 are
  alive, the last one at \<open>x = 154\<close>; the timer is about to expire.
\<close>

definition edge_state :: game where
  "edge_state = initial_game
     \<lparr>aliens := map (\<lambda>c. \<lparr>a_x = 70 + 12 * int c, a_y = 20, alive = True\<rparr>) [0..<8] @
                 replicate 40 \<lparr>a_x = 50, a_y = 0, alive = False\<rparr>,
      game_state := GAME_STATE_PLAYING, alien_timer := 1, aliens_left := 8,
      current_alien_rows := 1, current_alien_cols := 8,
      player := \<lparr>p_x = 76, p_y = 140\<rparr>\<rparr>"

text \<open>An explosion pool with the first two slots in use, and a full one.\<close>

definition two_explosions :: game where
  "two_explosions = initial_game
     \<lparr>explosions := replicate 2 \<lparr>e_x = 20, e_y = 20, life = 7, e_active = True\<rparr> @
                     replicate 46 \<lparr>e_x = 0, e_y = 0, life = 0, e_active = False\<rparr>\<rparr>"

definition full_explosions :: game where
  "full_explosions = initial_game
     \<lparr>explosions := replicate 48 \<lparr>e_x = 20, e_y = 20, life = 7, e_active = True\<rparr>\<rparr>"

text \<open>
  Wave 1 while Playing, the formation where \<open>init_aliens\<close> puts it, the player at the right
  of the screen, clear of the formation's columns, and no bullet in flight.
\<close>

definition clear_shot :: game where
  "clear_shot = initial_game
     \<lparr>aliens := map (\<lambda>c. \<lparr>a_x = 20 + 12 * int c, a_y = 20, alive = True\<rparr>) [0..<8] @
                 replicate 40 \<lparr>a_x = 0, a_y = 0, alive = False\<rparr>,
      stars := replicate 50 \<lparr>s_x = 3, s_y = 0, speed = 1\<rparr>,
      game_state := GAME_STATE_PLAYING, aliens_left := 8,
      current_alien_rows := 1, current_alien_cols := 8,
      player := \<lparr>p_x = 140, p_y = 140\<rparr>\<rparr>"

text \<open>A state while Playing: the player at the centre, no bullet in flight.\<close>

definition ready_to_fire :: game where
  "ready_to_fire = initial_game
     \<lparr>player := \<lparr>p_x = 76, p_y = 140\<rparr>, game_state := GAME_STATE_PLAYING\<rparr>"

text \<open>
  Wave 1 while Playing, the formation where \<open>init_aliens\<close> puts it, and the bullet inside
  the box of the alien of slot 2.
\<close>

definition hit_state :: game where
  "hit_state = initial_game
     \<lparr>aliens := map (\<lambda>c. \<lparr>a_x = 20 + 12 * int c, a_y = 20, alive = True\<rparr>) [0..<8] @
                 replicate 40 \<lparr>a_x = 0, a_y = 0, alive = False\<rparr>,
      game_state := GAME_STATE_PLAYING, aliens_left := 8,
      current_alien_rows := 1, current_alien_cols := 8,
      player := \<lparr>p_x = 42, p_y = 140\<rparr>,
      player_bullet := \<lparr>b_x = 45, b_y = 24, b_active = True\<rparr>\<rparr>"

text \<open>
  Wave 1 while Playing, after the formation has come down to the player: the eight aliens
  of row 0 are alive at \<open>y = 135\<close>, and the one of slot 4, at \<open>x = 73\<close>, overlaps the player
  at \<open>(76, 140)\<close>.
\<close>

definition contact_state :: game where
  "contact_state = initial_game
     \<lparr>aliens := map (\<lambda>c. \<lparr>a_x = 25 + 12 * int c, a_y = 135, alive = True\<rparr>) [0..<8] @
                 replicate 40 \<lparr>a_x = 5, a_y = 115, alive = False\<rparr>,
      game_state := GAME_STATE_PLAYING, aliens_left := 8,
      current_alien_rows := 1, current_alien_cols := 8,
      player := \<lparr>p_x = 76, p_y = 140\<rparr>, score := 30\<rparr>"

section \<open>Properties\<close>

subsection \<open>The random number generator\<close>

text \<open>
  The section proves what the claims need; the claims themselves, C1 to C10, are stated and
  settled in the last section.
\<close>

lemma TOTAL_ALIENS_48: "TOTAL_ALIENS = 48"
  by (simp add: TOTAL_ALIENS_def ALIEN_COLS_def ALIEN_ROWS_def)

lemma lcg_lt: "uint (lcg seed) < 2^31"
proof -
  have "lcg seed \<le> 0x7fffffff" unfolding lcg_def by (rule word_and_le1)
  then have "uint (lcg seed) \<le> uint (0x7fffffff :: 32 word)" by (simp add: word_le_def)
  then show ?thesis by simp
qed

lemma sint_small: "uint (w :: 32 word) < 2^31 \<Longrightarrow> sint w = uint w"
proof -
  assume "uint w < 2^31"
  moreover have "- (2 ^ 31) \<le> (0::int)" by simp
  then have "- (2 ^ 31) \<le> uint w"
    using uint_ge_0 [of w] by (rule order_trans)
  ultimately have "signed_take_bit 31 (uint w) = uint w"
    by (rule signed_take_bit_int_eq_self [rotated])
  then show ?thesis by (simp add: sint_uint)
qed

lemma uint_mod_le: "uint (a mod b :: 32 word) \<le> uint a"
  by (simp add: uint_mod_distrib zmod_le_nonneg_dividend)

lemma uint_range: "0 < k \<Longrightarrow> k < 2^32 \<Longrightarrow> uint (word_of_int k :: 32 word) = k"
  by (simp add: uint_word_of_int)

lemma random_int_eq:
  assumes "mn \<le> mx" "mx - mn + 1 < 2 ^ 32"
  shows "random_int mn mx seed = Some (mn + uint (lcg seed) mod (mx - mn + 1), lcg seed)"
proof -
  let ?k = "mx - mn + 1"
  let ?m = "word_of_int ?k :: 32 word"
  have k: "0 < ?k" using assms by simp
  have um: "uint ?m = ?k" using k assms(2) by (rule uint_range)
  then have nz: "?m \<noteq> 0" using k by auto
  have "uint (lcg seed mod ?m) \<le> uint (lcg seed)" by (rule uint_mod_le)
  then have "uint (lcg seed mod ?m) < 2^31" using lcg_lt [of seed] by linarith
  then have "sint (lcg seed mod ?m) = uint (lcg seed mod ?m)" by (rule sint_small)
  also have "\<dots> = uint (lcg seed) mod ?k" by (simp only: uint_mod_distrib um)
  finally show ?thesis using nz by (simp add: random_int_def lcg_def Let_def)
qed

lemma random_int_range:
  assumes "mn \<le> mx"
  shows "mn \<le> mn + uint (lcg seed) mod (mx - mn + 1)"
    and "mn + uint (lcg seed) mod (mx - mn + 1) \<le> mx"
proof -
  have k: "0 < mx - mn + 1" using assms by simp
  have "0 \<le> uint (lcg seed) mod (mx - mn + 1)" using k by simp
  then show "mn \<le> mn + uint (lcg seed) mod (mx - mn + 1)" by simp
  have "uint (lcg seed) mod (mx - mn + 1) < mx - mn + 1" using k by (rule pos_mod_bound)
  then show "mn + uint (lcg seed) mod (mx - mn + 1) \<le> mx" by linarith
qed

lemma random_ints_eq:
  "\<forall>(a, b) \<in> set rs. a \<le> b \<and> b - a + 1 < 2 ^ 32 \<Longrightarrow>
   random_ints rs seed = Some (map (nth_random rs seed) [0..<length rs], (lcg ^^ length rs) seed)"
proof (induction rs arbitrary: seed)
  case Nil
  then show ?case by simp
next
  case (Cons r rs)
  obtain a b where r: "r = (a, b)" by (cases r)
  have ab: "a \<le> b" "b - a + 1 < 2 ^ 32" using Cons.prems r by auto
  have rest: "\<forall>(a, b) \<in> set rs. a \<le> b \<and> b - a + 1 < 2 ^ 32" using Cons.prems by simp
  have shift: "map (nth_random (r # rs) seed) [0..<Suc (length rs)] =
      nth_random (r # rs) seed 0 # map (nth_random rs (lcg seed)) [0..<length rs]"
    by (simp add: upt_conv_Cons map_Suc_upt [symmetric] nth_random_def funpow_swap1
        del: upt_Suc)
  have first: "nth_random (r # rs) seed 0 = a + uint (lcg seed) mod (b - a + 1)"
    by (simp add: nth_random_def r)
  have last: "(lcg ^^ length (r # rs)) seed = (lcg ^^ length rs) (lcg seed)"
    by (simp add: funpow_swap1)
  have "random_ints (r # rs) seed =
      Some (nth_random (r # rs) seed 0 # map (nth_random rs (lcg seed)) [0..<length rs],
            (lcg ^^ length rs) (lcg seed))"
    using random_int_eq [OF ab, of seed] Cons.IH [OF rest, of "lcg seed"]
    by (simp add: r first [unfolded r])
  then show ?case
    by (simp only: shift [symmetric] last [symmetric] length_Cons)
qed

subsection \<open>Loops and \<open>init_aliens\<close>\<close>

lemma fold_inv:
  assumes "\<And>x s. P s \<Longrightarrow> P (f x s)" and "P s"
  shows "P (fold f xs s)"
  using assms(2) by (induction xs arbitrary: s) (simp_all add: assms(1))

lemma fold_upt_inv:
  assumes "\<And>i s. a \<le> i \<Longrightarrow> i < b \<Longrightarrow> P i s \<Longrightarrow> P (Suc i) (f i s)"
    and "P a s" and "a \<le> b"
  shows "P b (fold f [a..<b] s)"
  using assms(3,1)
proof (induction b)
  case 0
  then show ?case using assms(2) by simp
next
  case (Suc b)
  show ?case
  proof (cases "a = Suc b")
    case True
    then show ?thesis using assms(2) by simp
  next
    case False
    then have ab: "a \<le> b" using Suc.prems(1) by simp
    have "P b (fold f [a..<b] s)"
      using ab Suc.prems(2) by (intro Suc.IH) simp_all
    then have "P (Suc b) (f b (fold f [a..<b] s))"
      using ab by (intro Suc.prems(2)) simp_all
    then show ?thesis using ab by simp
  qed
qed

lemma count_prefix:
  assumes "length xs = n" and "k \<le> n" and "\<forall>j<n. P (xs ! j) \<longleftrightarrow> j < k"
  shows "length (filter P xs) = k"
proof -
  have a: "filter P (take k xs) = take k xs"
    using assms by (auto simp: filter_id_conv in_set_conv_nth)
  have b: "filter P (drop k xs) = []"
    using assms by (auto simp: filter_empty_conv in_set_conv_nth)
  have "filter P xs = filter P (take k xs @ drop k xs)" by simp
  also have "\<dots> = take k xs" unfolding filter_append a b by simp
  finally show ?thesis using assms by simp
qed

lemma place_alien_placed:
  assumes "placed (y * 8 + x) s" and "y < 6" and "x < 8"
  shows "placed (Suc (y * 8 + x)) (place_alien y x s)"
  using assms
  by (auto simp: placed_def place_alien_def Let_def ALIEN_COLS_def TOTAL_ALIENS_48
      nth_list_update less_Suc_eq)

lemma place_row_placed:
  assumes "placed (y * 8) s" and "y < 6"
  shows "placed (Suc y * 8) (fold (\<lambda>x. place_alien y x) [0..<8] s)"
proof -
  have "placed (y * 8 + 8) (fold (\<lambda>x. place_alien y x) [0..<8] s)"
  proof (rule fold_upt_inv [where P = "\<lambda>x. placed (y * 8 + x)"])
    show "placed (y * 8 + 0) s" using assms(1) by simp
  next
    fix i s assume "i < 8" "placed (y * 8 + i) s"
    then show "placed (y * 8 + Suc i) (place_alien y i s)"
      using place_alien_placed [of y i s] assms(2) by simp
  qed simp
  then show ?thesis by (simp add: add.commute)
qed

lemma place_rows_placed:
  assumes "placed 0 s" and "r \<le> 6"
  shows "placed (r * 8) (fold (\<lambda>y. fold (\<lambda>x. place_alien y x) [0..<8]) [0..<r] s)"
proof (rule fold_upt_inv [where P = "\<lambda>y. placed (y * 8)"])
  show "placed (0 * 8) s" using assms(1) by simp
next
  fix i s assume "i < r" "placed (i * 8) s"
  then show "placed (Suc i * 8) (fold (\<lambda>x. place_alien i x) [0..<8] s)"
    using place_row_placed [of i s] assms(2) by simp
qed simp

lemma clear_rest:
  assumes "placed k s" and "k \<le> TOTAL_ALIENS"
  shows "cleared k TOTAL_ALIENS
    (fold (\<lambda>i s. s\<lparr>aliens := (aliens s)[i := (aliens s ! i)\<lparr>alive := False\<rparr>]\<rparr>)
       [k..<TOTAL_ALIENS] s)"
proof (rule fold_upt_inv [where P = "cleared k"])
  show "cleared k k s" using assms(1) by (auto simp: cleared_def)
next
  fix i s assume "k \<le> i" "i < TOTAL_ALIENS" "cleared k i s"
  then show "cleared k (Suc i) (s\<lparr>aliens := (aliens s)[i := (aliens s ! i)\<lparr>alive := False\<rparr>]\<rparr>)"
    by (auto simp: cleared_def placed_def nth_list_update less_Suc_eq)
qed (rule assms(2))

lemma cleared_count:
  assumes "cleared k TOTAL_ALIENS s" and "k \<le> TOTAL_ALIENS"
  shows "aliens_left s = alive_count s" and "length (aliens s) = TOTAL_ALIENS"
proof -
  have len: "length (aliens s) = TOTAL_ALIENS" using assms(1) by (simp add: cleared_def placed_def)
  have "\<forall>j<TOTAL_ALIENS. alive (aliens s ! j) \<longleftrightarrow> j < k"
    using assms(1) by (auto simp: cleared_def placed_def) (meson not_le)
  then have "length (filter alive (aliens s)) = k"
    using len assms(2) by (intro count_prefix [where n = TOTAL_ALIENS]) simp_all
  then show "aliens_left s = alive_count s"
    using assms(1) by (simp add: alive_count_def cleared_def placed_def)
  show "length (aliens s) = TOTAL_ALIENS" by (rule len)
qed

lemma place_aliens_frame:
  "\<exists>as n. fold (\<lambda>y. fold (\<lambda>x. place_alien y x) xs) ys s = s\<lparr>aliens := as, aliens_left := n\<rparr>"
proof (rule fold_inv [where P = "\<lambda>t. \<exists>as n. t = s\<lparr>aliens := as, aliens_left := n\<rparr>"])
  fix y t assume "\<exists>as n. t = s\<lparr>aliens := as, aliens_left := n\<rparr>"
  then show "\<exists>as n. fold (\<lambda>x. place_alien y x) xs t = s\<lparr>aliens := as, aliens_left := n\<rparr>"
  proof (rule fold_inv [where P = "\<lambda>t. \<exists>as n. t = s\<lparr>aliens := as, aliens_left := n\<rparr>", rotated])
    fix x t assume "\<exists>as n. t = s\<lparr>aliens := as, aliens_left := n\<rparr>"
    then obtain as n where "t = s\<lparr>aliens := as, aliens_left := n\<rparr>" by blast
    then have "place_alien y x t =
        s\<lparr>aliens := as[y * nat ALIEN_COLS + x :=
               \<lparr>a_x = 20 + int x * 12, a_y = 20 + int y * 12, alive = True\<rparr>],
          aliens_left := n + 1\<rparr>"
      by (simp add: place_alien_def Let_def)
    then show "\<exists>as n. place_alien y x t = s\<lparr>aliens := as, aliens_left := n\<rparr>"
      by blast
  qed
next
  show "\<exists>as n. s = s\<lparr>aliens := as, aliens_left := n\<rparr>"
    by (rule exI [of _ "aliens s"], rule exI [of _ "aliens_left s"]) simp
qed

lemma clear_rest_frame:
  "\<exists>as. fold (\<lambda>i s. s\<lparr>aliens := (aliens s)[i := (aliens s ! i)\<lparr>alive := False\<rparr>]\<rparr>) is s
     = s\<lparr>aliens := as\<rparr>"
proof (rule fold_inv [where P = "\<lambda>t. \<exists>as. t = s\<lparr>aliens := as\<rparr>"])
  fix i t assume "\<exists>as. t = s\<lparr>aliens := as\<rparr>"
  then show "\<exists>as. t\<lparr>aliens := (aliens t)[i := (aliens t ! i)\<lparr>alive := False\<rparr>]\<rparr> = s\<lparr>aliens := as\<rparr>"
    by auto
next
  show "\<exists>as. s = s\<lparr>aliens := as\<rparr>" by (rule exI [of _ "aliens s"]) simp
qed

text \<open>\<open>init_aliens\<close> changes the aliens, their count and the clamped formation only.\<close>

lemma init_aliens_frame:
  "\<exists>as n. init_aliens s =
     s\<lparr>aliens := as, aliens_left := n,
       current_alien_rows := min (current_alien_rows s) ALIEN_ROWS,
       current_alien_cols := min (current_alien_cols s) ALIEN_COLS\<rparr>"
proof -
  define s1 where "s1 = s\<lparr>aliens_left := 0\<rparr>"
  define s2 where "s2 = (if current_alien_rows s1 > ALIEN_ROWS
               then s1\<lparr>current_alien_rows := ALIEN_ROWS\<rparr> else s1)"
  define s3 where "s3 = (if current_alien_cols s2 > ALIEN_COLS
               then s2\<lparr>current_alien_cols := ALIEN_COLS\<rparr> else s2)"
  define s4 where "s4 = fold (\<lambda>y. fold (\<lambda>x. place_alien y x) [0..<nat (current_alien_cols s3)])
                [0..<nat (current_alien_rows s3)] s3"
  have s3: "s3 = s\<lparr>aliens_left := 0, current_alien_rows := min (current_alien_rows s) ALIEN_ROWS,
       current_alien_cols := min (current_alien_cols s) ALIEN_COLS\<rparr>"
    by (simp add: s3_def s2_def s1_def min_def)
  obtain as n where s4: "s4 = s3\<lparr>aliens := as, aliens_left := n\<rparr>"
    unfolding s4_def using place_aliens_frame by blast
  obtain as' where
    "fold (\<lambda>i s. s\<lparr>aliens := (aliens s)[i := (aliens s ! i)\<lparr>alive := False\<rparr>]\<rparr>)
                [nat (aliens_left s4)..<TOTAL_ALIENS] s4 = s4\<lparr>aliens := as'\<rparr>"
    using clear_rest_frame by blast
  moreover have "init_aliens s =
     fold (\<lambda>i s. s\<lparr>aliens := (aliens s)[i := (aliens s ! i)\<lparr>alive := False\<rparr>]\<rparr>)
                [nat (aliens_left s4)..<TOTAL_ALIENS] s4"
    unfolding init_aliens_def Let_def s4_def s3_def s2_def s1_def by (rule refl)
  ultimately have "init_aliens s = s\<lparr>aliens := as', aliens_left := n,
       current_alien_rows := min (current_alien_rows s) ALIEN_ROWS,
       current_alien_cols := min (current_alien_cols s) ALIEN_COLS\<rparr>"
    by (simp add: s4 s3)
  then show ?thesis by blast
qed

text \<open>With all eight columns in use, \<open>init_aliens\<close> leaves \<open>aliens_left\<close> the number of alive aliens.\<close>

lemma init_aliens_count:
  assumes "length (aliens s) = TOTAL_ALIENS" and "current_alien_cols s = ALIEN_COLS"
  shows "aliens_left (init_aliens s) = alive_count (init_aliens s)"
    and "length (aliens (init_aliens s)) = TOTAL_ALIENS"
proof -
  define s1 where "s1 = s\<lparr>aliens_left := 0\<rparr>"
  define s2 where "s2 = (if current_alien_rows s1 > ALIEN_ROWS
               then s1\<lparr>current_alien_rows := ALIEN_ROWS\<rparr> else s1)"
  define s3 where "s3 = (if current_alien_cols s2 > ALIEN_COLS
               then s2\<lparr>current_alien_cols := ALIEN_COLS\<rparr> else s2)"
  define s4 where "s4 = fold (\<lambda>y. fold (\<lambda>x. place_alien y x) [0..<nat (current_alien_cols s3)])
                [0..<nat (current_alien_rows s3)] s3"
  define r where "r = nat (current_alien_rows s3)"
  have "current_alien_rows s3 \<le> 6" by (simp add: s3_def s2_def s1_def ALIEN_ROWS_def)
  then have r: "r \<le> 6" unfolding r_def by linarith
  have cols: "nat (current_alien_cols s3) = 8"
    using assms(2) by (simp add: s3_def s2_def s1_def ALIEN_COLS_def)
  have "placed 0 s3" using assms(1) by (simp add: placed_def s3_def s2_def s1_def)
  then have p: "placed (r * 8) s4"
    unfolding s4_def cols r_def [symmetric] using r by (rule place_rows_placed)
  have k: "r * 8 \<le> TOTAL_ALIENS" using r by (simp add: TOTAL_ALIENS_48)
  have left: "nat (aliens_left s4) = r * 8" using p by (simp add: placed_def)
  have "init_aliens s =
     fold (\<lambda>i s. s\<lparr>aliens := (aliens s)[i := (aliens s ! i)\<lparr>alive := False\<rparr>]\<rparr>)
                [nat (aliens_left s4)..<TOTAL_ALIENS] s4"
    unfolding init_aliens_def Let_def s4_def s3_def s2_def s1_def by (rule refl)
  then have "cleared (r * 8) TOTAL_ALIENS (init_aliens s)"
    using clear_rest [OF p k] by (simp add: left)
  then show "aliens_left (init_aliens s) = alive_count (init_aliens s)"
    and "length (aliens (init_aliens s)) = TOTAL_ALIENS"
    using k by (rule cleared_count)+
qed

subsection \<open>The frame invariant\<close>

lemma init_aliens_fields:
  "player (init_aliens s) = player s"
  "player_bullet (init_aliens s) = player_bullet s"
  "stars (init_aliens s) = stars s"
  "game_state (init_aliens s) = game_state s"
  "alien_direction (init_aliens s) = alien_direction s"
  "alien_timer (init_aliens s) = alien_timer s"
  "current_alien_move_delay (init_aliens s) = current_alien_move_delay s"
  "score (init_aliens s) = score s"
  "random_seed (init_aliens s) = random_seed s"
  "current_wave (init_aliens s) = current_wave s"
  "current_alien_rows (init_aliens s) = min (current_alien_rows s) ALIEN_ROWS"
  "current_alien_cols (init_aliens s) = min (current_alien_cols s) ALIEN_COLS"
  "explosions (init_aliens s) = explosions s"
  "current_jingle_note_index (init_aliens s) = current_jingle_note_index s"
  "jingle_note_timer (init_aliens s) = jingle_note_timer s"
  "playing_wave_jingle (init_aliens s) = playing_wave_jingle s"
  "tones (init_aliens s) = tones s"
proof -
  obtain as n where eq: "init_aliens s =
     s\<lparr>aliens := as, aliens_left := n,
       current_alien_rows := min (current_alien_rows s) ALIEN_ROWS,
       current_alien_cols := min (current_alien_cols s) ALIEN_COLS\<rparr>"
    using init_aliens_frame [of s] by (elim exE)
  show "player (init_aliens s) = player s"
  "player_bullet (init_aliens s) = player_bullet s"
  "stars (init_aliens s) = stars s"
  "game_state (init_aliens s) = game_state s"
  "alien_direction (init_aliens s) = alien_direction s"
  "alien_timer (init_aliens s) = alien_timer s"
  "current_alien_move_delay (init_aliens s) = current_alien_move_delay s"
  "score (init_aliens s) = score s"
  "random_seed (init_aliens s) = random_seed s"
  "current_wave (init_aliens s) = current_wave s"
  "current_alien_rows (init_aliens s) = min (current_alien_rows s) ALIEN_ROWS"
  "current_alien_cols (init_aliens s) = min (current_alien_cols s) ALIEN_COLS"
  "explosions (init_aliens s) = explosions s"
  "current_jingle_note_index (init_aliens s) = current_jingle_note_index s"
  "jingle_note_timer (init_aliens s) = jingle_note_timer s"
  "playing_wave_jingle (init_aliens s) = playing_wave_jingle s"
  "tones (init_aliens s) = tones s"
    by (simp_all add: eq)
qed

lemma update_player_x: "0 \<le> p_x (player (update_player g s)) \<and> p_x (player (update_player g s)) \<le> 152"
  by (simp add: update_player_def Let_def)

lemma update_player_fields:
  "p_y (player (update_player g s)) = p_y (player s)"
  "aliens (update_player g s) = aliens s"
  "aliens_left (update_player g s) = aliens_left s"
  "current_alien_cols (update_player g s) = current_alien_cols s"
  "alien_direction (update_player g s) = alien_direction s"
  "current_alien_move_delay (update_player g s) = current_alien_move_delay s"
  "explosions (update_player g s) = explosions s"
  "stars (update_player g s) = stars s"
  "current_jingle_note_index (update_player g s) = current_jingle_note_index s"
  by (simp_all add: update_player_def Let_def)

lemma update_player_inv: "game_inv s \<Longrightarrow> game_inv (update_player g s)"
  using update_player_x [of g s]
  by (simp add: game_inv_def update_player_fields alive_count_def)

lemma update_player_bullet_inv: "game_inv s \<Longrightarrow> game_inv (update_player_bullet s)"
  by (simp add: game_inv_def update_player_bullet_def Let_def alive_count_def)

lemma update_aliens_inv: "game_inv s \<Longrightarrow> game_inv (update_aliens s)"
  by (auto simp: game_inv_def update_aliens_def Let_def alive_count_def comp_def)

lemma play_wave_jingle_inv: "game_inv s \<Longrightarrow> game_inv (play_wave_jingle s)"
  by (auto simp: game_inv_def play_wave_jingle_def Let_def alive_count_def
      wave_jingle_length_def wave_jingle_melody_def)

lemma update_explosions_inv: "game_inv s \<Longrightarrow> game_inv (update_explosions s)"
  by (simp add: game_inv_def update_explosions_def alive_count_def)

lemma create_explosion_from_frame:
  "\<exists>es. create_explosion_from i x y s = s\<lparr>explosions := es\<rparr> \<and>
     length es = length (explosions s)"
proof (induction i x y s rule: create_explosion_from.induct)
  case (1 i x y s)
  consider "\<not> i < TOTAL_ALIENS" | "i < TOTAL_ALIENS" "\<not> e_active (explosions s ! i)"
    | "i < TOTAL_ALIENS" "e_active (explosions s ! i)"
    by blast
  then show ?case
  proof cases
    case 1
    then have "create_explosion_from i x y s = s\<lparr>explosions := explosions s\<rparr>"
      by (simp add: create_explosion_from.simps [of i])
    then show ?thesis by blast
  next
    case 2
    then have "create_explosion_from i x y s = s\<lparr>explosions := (explosions s)[i := (explosions s ! i)
                  \<lparr>e_x := x, e_y := y, life := EXPLOSION_DURATION, e_active := True\<rparr>]\<rparr>"
      by (simp add: create_explosion_from.simps [of i])
    moreover have "length ((explosions s)[i := (explosions s ! i)
                  \<lparr>e_x := x, e_y := y, life := EXPLOSION_DURATION, e_active := True\<rparr>]) =
        length (explosions s)"
      by simp
    ultimately show ?thesis by blast
  next
    case 3
    then show ?thesis
      using "1.IH" by (simp add: create_explosion_from.simps [of i])
  qed
qed

lemma create_explosion_frame:
  "\<exists>es. create_explosion x y s = s\<lparr>explosions := es\<rparr> \<and> length es = length (explosions s)"
  unfolding create_explosion_def by (rule create_explosion_from_frame)

lemma kill_one_count:
  "i < length xs \<Longrightarrow> alive (xs ! i) \<Longrightarrow>
   int (length (filter alive (xs[i := (xs ! i)\<lparr>alive := False\<rparr>]))) =
   int (length (filter alive xs)) - 1"
proof (induction xs arbitrary: i)
  case Nil
  then show ?case by simp
next
  case (Cons a xs)
  show ?case
  proof (cases i)
    case 0
    then show ?thesis using Cons.prems by simp
  next
    case (Suc j)
    then show ?thesis using Cons.prems Cons.IH [of j] by simp
  qed
qed

lemma bullet_hit_inv:
  assumes "game_inv s" and "i < TOTAL_ALIENS" and "alive (aliens s ! i)"
  shows "game_inv (bullet_hit i s)"
proof -
  define s1 where "s1 = s\<lparr>aliens := (aliens s)[i := (aliens s ! i)\<lparr>alive := False\<rparr>]\<rparr>"
  obtain es where s2: "create_explosion (a_x (aliens s1 ! i)) (a_y (aliens s1 ! i)) s1
      = s1\<lparr>explosions := es\<rparr>" and es: "length es = length (explosions s1)"
    using create_explosion_frame by blast
  have "bullet_hit i s =
      s1\<lparr>explosions := es,
         player_bullet := (player_bullet s1)\<lparr>b_active := False\<rparr>,
         score := score s1 + 10,
         aliens_left := aliens_left s1 - 1,
         tones := tones s1 @ [Tone 200 15 80 TONE_NOISE]\<rparr>"
    unfolding bullet_hit_def Let_def s1_def [symmetric] s2 by simp
  moreover have "alive_count s1 = alive_count s - 1"
    using assms kill_one_count [of i "aliens s"]
    by (simp add: s1_def alive_count_def game_inv_def)
  ultimately show ?thesis
    using assms(1) es by (simp add: game_inv_def alive_count_def s1_def)
qed

lemma check_collisions_from_inv:
  "game_inv s \<Longrightarrow> game_inv (check_collisions_from i s)"
proof (induction i s rule: check_collisions_from.induct)
  case (1 i s)
  then show ?case
    by (simp add: check_collisions_from.simps [of i] bullet_hit_inv)
qed

lemma check_collisions_inv: "game_inv s \<Longrightarrow> game_inv (check_collisions s)"
  by (simp add: check_collisions_def check_collisions_from_inv)

lemma init_aliens_inv:
  assumes "game_inv s"
  shows "game_inv (init_aliens s)"
proof -
  have len: "length (aliens s) = TOTAL_ALIENS" and cols: "current_alien_cols s = ALIEN_COLS"
    using assms by (simp_all add: game_inv_def)
  show ?thesis
    using assms init_aliens_count [OF len cols]
    by (simp add: game_inv_def init_aliens_fields)
qed

lemma game_over_inv:
  assumes "game_inv s"
  shows "game_inv (game_over s)"
proof -
  define s1 where "s1 = init_aliens (s\<lparr>game_state := GAME_STATE_MENU,
      tones := tones s @ [Tone 50 60 100 TONE_TRIANGLE]\<rparr>)"
  have "game_inv (s\<lparr>game_state := GAME_STATE_MENU,
      tones := tones s @ [Tone 50 60 100 TONE_TRIANGLE]\<rparr>)"
    using assms by (simp add: game_inv_def alive_count_def)
  then have 1: "game_inv s1" unfolding s1_def by (rule init_aliens_inv)
  have "game_over s = s1\<lparr>player := (player s1)\<lparr>p_x := 76\<rparr>,
      player_bullet := (player_bullet s1)\<lparr>b_active := False\<rparr>,
      score := 0, alien_timer := 20, alien_direction := 1, current_wave := 1,
      current_alien_rows := 3, current_alien_cols := ALIEN_COLS\<rparr>"
    unfolding game_over_def Let_def s1_def by simp
  then show ?thesis using 1 by (simp add: game_inv_def alive_count_def)
qed

lemma check_player_collision_from_inv:
  "game_inv s \<Longrightarrow> game_inv (check_player_collision_from i s)"
proof (induction i s rule: check_player_collision_from.induct)
  case (1 i s)
  then show ?case
    by (simp add: check_player_collision_from.simps [of i] game_over_inv)
qed

lemma check_player_collision_inv: "game_inv s \<Longrightarrow> game_inv (check_player_collision s)"
  by (simp add: check_player_collision_def check_player_collision_from_inv)

lemma next_wave_fields:
  "current_wave (next_wave s) = current_wave s + 1"
  "current_alien_move_delay (next_wave s) =
     (if 20 - (current_wave s + 1) * 3 < 5 then 4 else 20 - (current_wave s + 1) * 3)"
  "player (next_wave s) = player s"
  "alien_direction (next_wave s) = 1"
  by (simp_all add: next_wave_def Let_def init_aliens_fields)

lemma next_wave_inv:
  assumes "game_inv s"
  shows "game_inv (next_wave s)"
proof -
  define s1 where "s1 = s\<lparr>current_wave := current_wave s + 1\<rparr>"
  define s2 where "s2 = s1\<lparr>current_alien_move_delay := 20 - (current_wave s1 * 3)\<rparr>"
  define s3 where "s3 = (if current_alien_move_delay s2 < 5
               then s2\<lparr>current_alien_move_delay := 4\<rparr> else s2)"
  define s4 where "s4 = s3\<lparr>alien_timer := current_alien_move_delay s3\<rparr>"
  define s5 where "s5 = s4\<lparr>current_alien_cols := ALIEN_COLS\<rparr>"
  define s6 where "s6 = s5\<lparr>current_alien_rows := (current_wave s5 + 1) div 2\<rparr>"
  define s7 where "s7 = (if current_alien_rows s6 > ALIEN_ROWS
               then s6\<lparr>current_alien_rows := ALIEN_ROWS\<rparr> else s6)"
  have eq: "next_wave s = (init_aliens s7)\<lparr>alien_direction := 1,
      current_jingle_note_index := 0, jingle_note_timer := 0, playing_wave_jingle := True\<rparr>"
    unfolding next_wave_def Let_def s7_def s6_def s5_def s4_def s3_def s2_def s1_def by simp
  have "game_inv s7"
    using assms
    by (simp add: game_inv_def alive_count_def s7_def s6_def s5_def s4_def s3_def s2_def s1_def)
  then have "game_inv (init_aliens s7)" by (rule init_aliens_inv)
  then show ?thesis by (simp add: eq game_inv_def alive_count_def)
qed

lemma update_menu_inv:
  assumes "game_inv s"
  shows "game_inv (update_menu g m s)"
proof (cases "g AND BUTTON_1 \<noteq> 0 \<or> m AND MOUSE_BUTTON_LEFT \<noteq> 0")
  case True
  define s1 where "s1 = init_aliens (s\<lparr>game_state := GAME_STATE_PLAYING\<rparr>)"
  have "game_inv (s\<lparr>game_state := GAME_STATE_PLAYING\<rparr>)"
    using assms by (simp add: game_inv_def alive_count_def)
  then have 1: "game_inv s1" unfolding s1_def by (rule init_aliens_inv)
  have "update_menu g m s = s1\<lparr>score := 0, player := (player s1)\<lparr>p_x := 76\<rparr>,
      player_bullet := (player_bullet s1)\<lparr>b_active := False\<rparr>\<rparr>"
    using True unfolding update_menu_def Let_def s1_def by simp
  then show ?thesis using 1 by (simp add: game_inv_def alive_count_def)
next
  case False
  then show ?thesis using assms by (simp add: update_menu_def)
qed

subsection \<open>Loops that may trap\<close>

lemma for_each_inv:
  assumes "\<And>i s s'. P s \<Longrightarrow> body i s = Some s' \<Longrightarrow> P s'"
    and "P s" and "for_each body is s = Some s'"
  shows "P s'"
  using assms(2,3)
proof (induction "is" arbitrary: s)
  case Nil
  then show ?case by simp
next
  case (Cons i "is")
  from Cons.prems(2) obtain t where t: "body i s = Some t" and rest: "for_each body is t = Some s'"
    by (auto split: option.splits)
  have "P t" using Cons.prems(1) t by (rule assms(1))
  then show ?case using rest by (rule Cons.IH)
qed

lemma for_each_total:
  assumes "\<And>i s. \<exists>s'. body i s = Some s'"
  shows "\<exists>s'. for_each body is s = Some s'"
proof (induction "is" arbitrary: s)
  case Nil
  show ?case by simp
next
  case (Cons i "is")
  obtain t where "body i s = Some t" using assms by blast
  then show ?case using Cons.IH [of t] by simp
qed

lemma random_int_Some:
  assumes "mn \<le> mx" and "mx - mn + 1 < 2 ^ 32"
  shows "\<exists>v seed'. random_int mn mx seed = Some (v, seed')"
  using random_int_eq [OF assms] by blast

lemma random_ints_Some:
  assumes "\<forall>(a, b) \<in> set rs. a \<le> b \<and> b - a + 1 < 2 ^ 32"
  shows "\<exists>vs seed'. random_ints rs seed = Some (vs, seed')"
  using random_ints_eq [OF assms] by blast

text \<open>A star step changes the stars and the seed only, and does not trap.\<close>

lemma move_star_frame:
  assumes "move_star i s = Some s'"
  shows "\<exists>st seed. s' = s\<lparr>stars := st, random_seed := seed\<rparr> \<and> length st = length (stars s)"
proof -
  define s1 where "s1 = s\<lparr>stars := (stars s)[i := (stars s ! i)
                  \<lparr>s_y := s_y (stars s ! i) + minimum (speed (stars s ! i)) 2\<rparr>]\<rparr>"
  define s2 where "s2 = s1\<lparr>stars := (stars s1)[i := (stars s1 ! i)\<lparr>s_y := 0\<rparr>]\<rparr>"
  have eq: "move_star i s = (if s_y (stars s1 ! i) > 160 then
           (case random_int 0 159 (random_seed s2) of
                 None \<Rightarrow> None
               | Some (x, seed') \<Rightarrow>
                   Some (s2\<lparr>stars := (stars s2)[i := (stars s2 ! i)\<lparr>s_x := x\<rparr>],
                           random_seed := seed'\<rparr>))
         else Some s1)"
    unfolding move_star_def Let_def s2_def s1_def by (rule refl)
  show ?thesis
  proof (cases "s_y (stars s1 ! i) > 160")
    case True
    then obtain x seed' where "s' = s2\<lparr>stars := (stars s2)[i := (stars s2 ! i)\<lparr>s_x := x\<rparr>],
                           random_seed := seed'\<rparr>"
      using assms eq by (auto split: option.splits)
    then have "s' = s\<lparr>stars := (stars s2)[i := (stars s2 ! i)\<lparr>s_x := x\<rparr>],
                           random_seed := seed'\<rparr>"
      by (simp add: s2_def s1_def)
    moreover have "length ((stars s2)[i := (stars s2 ! i)\<lparr>s_x := x\<rparr>]) = length (stars s)"
      by (simp add: s2_def s1_def)
    ultimately show ?thesis by blast
  next
    case False
    then have "s' = s1" using assms eq by simp
    then have "s' = s\<lparr>stars := stars s1, random_seed := random_seed s\<rparr>"
      by (simp add: s1_def)
    moreover have "length (stars s1) = length (stars s)" by (simp add: s1_def)
    ultimately show ?thesis by blast
  qed
qed

lemma move_star_total: "\<exists>s'. move_star i s = Some s'"
proof -
  obtain v seed' where "random_int 0 159 (random_seed s) = Some (v, seed')"
    using random_int_Some [of 0 159 "random_seed s"] by auto
  then show ?thesis by (simp add: move_star_def Let_def)
qed

lemma move_star_inv: "game_inv s \<Longrightarrow> move_star i s = Some s' \<Longrightarrow> game_inv s'"
  using move_star_frame [of i s s'] by (auto simp: game_inv_def alive_count_def)

lemma draw_background_stars_inv:
  "game_inv s \<Longrightarrow> draw_background_stars s = Some s' \<Longrightarrow> game_inv s'"
  unfolding draw_background_stars_def
  by (rule for_each_inv [where P = game_inv and body = move_star]) (auto intro: move_star_inv)

lemma draw_background_stars_total: "\<exists>s'. draw_background_stars s = Some s'"
  unfolding draw_background_stars_def by (rule for_each_total) (rule move_star_total)

lemma draw_explosion_frame:
  "draw_explosion i s = Some s' \<Longrightarrow> \<exists>seed. s' = s\<lparr>random_seed := seed\<rparr>"
  by (auto simp: draw_explosion_def split: if_splits option.splits
      intro: exI [of _ "random_seed s"])

lemma draw_explosion_total: "\<exists>s'. draw_explosion i s = Some s'"
proof -
  obtain vs seed' where "random_ints [(- 2, 2), (- 2, 2), (- 3, 3), (- 3, 3), (- 1, 1), (- 1, 1)]
                (random_seed s) = Some (vs, seed')"
    using random_ints_Some [of "[(- 2, 2), (- 2, 2), (- 3, 3), (- 3, 3), (- 1, 1), (- 1, 1)]"
        "random_seed s"]
    by auto
  then show ?thesis by (simp add: draw_explosion_def)
qed

lemma draw_explosion_inv: "game_inv s \<Longrightarrow> draw_explosion i s = Some s' \<Longrightarrow> game_inv s'"
  using draw_explosion_frame [of i s s'] by (auto simp: game_inv_def alive_count_def)

lemma draw_explosions_inv:
  "game_inv s \<Longrightarrow> draw_explosions s = Some s' \<Longrightarrow> game_inv s'"
  unfolding draw_explosions_def
  by (rule for_each_inv [where P = game_inv and body = draw_explosion])
    (auto intro: draw_explosion_inv)

lemma draw_explosions_total: "\<exists>s'. draw_explosions s = Some s'"
  unfolding draw_explosions_def by (rule for_each_total) (rule draw_explosion_total)

subsection \<open>Start, frame and reachable states\<close>

lemma init_star_frame:
  assumes "init_star i s = Some s'"
  shows "\<exists>st seed. s' = s\<lparr>stars := st, random_seed := seed\<rparr> \<and> length st = length (stars s)"
proof -
  from assms obtain x y sp seed3 where
    "s' = s\<lparr>stars := (stars s)[i := \<lparr>s_x = x, s_y = y, speed = sp\<rparr>], random_seed := seed3\<rparr>"
    by (auto simp: init_star_def split: option.splits)
  moreover have "length ((stars s)[i := \<lparr>s_x = x, s_y = y, speed = sp\<rparr>]) = length (stars s)"
    by simp
  ultimately show ?thesis by blast
qed

lemma init_star_total: "\<exists>s'. init_star i s = Some s'"
proof -
  obtain x seed1 where 1: "random_int 0 159 (random_seed s) = Some (x, seed1)"
    using random_int_Some [of 0 159 "random_seed s"] by auto
  obtain y seed2 where 2: "random_int 0 159 seed1 = Some (y, seed2)"
    using random_int_Some [of 0 159 seed1] by auto
  obtain sp seed3 where 3: "random_int 1 3 seed2 = Some (sp, seed3)"
    using random_int_Some [of 1 3 seed2] by auto
  show ?thesis by (simp add: init_star_def 1 2 3)
qed

lemma init_stars_frame:
  assumes "init_stars s = Some s'"
  shows "\<exists>st seed. s' = s\<lparr>stars := st, random_seed := seed\<rparr> \<and> length st = length (stars s)"
proof (rule for_each_inv [where P = "\<lambda>t. \<exists>st seed. t = s\<lparr>stars := st, random_seed := seed\<rparr> \<and>
        length st = length (stars s)"
      and body = init_star])
  show "for_each init_star [0..<STAR_COUNT] s = Some s'"
    using assms by (simp only: init_stars_def)
next
  have "s = s\<lparr>stars := stars s, random_seed := random_seed s\<rparr>" by simp
  then show "\<exists>st seed. s = s\<lparr>stars := st, random_seed := seed\<rparr> \<and> length st = length (stars s)"
    by blast
next
  fix i t t'
  assume "\<exists>st seed. t = s\<lparr>stars := st, random_seed := seed\<rparr> \<and> length st = length (stars s)"
    and "init_star i t = Some t'"
  then obtain st seed st' seed' where "t = s\<lparr>stars := st, random_seed := seed\<rparr>"
    and "length st = length (stars s)"
    and "t' = t\<lparr>stars := st', random_seed := seed'\<rparr>" and "length st' = length (stars t)"
    using init_star_frame [of i t t'] by blast
  then have "t' = s\<lparr>stars := st', random_seed := seed'\<rparr>" "length st' = length (stars s)"
    by simp_all
  then show "\<exists>st seed. t' = s\<lparr>stars := st, random_seed := seed\<rparr> \<and> length st = length (stars s)"
    by blast
qed

lemma init_stars_total: "\<exists>s'. init_stars s = Some s'"
  unfolding init_stars_def by (rule for_each_total) (rule init_star_total)

text \<open>\<open>start\<close> in terms of the state that \<open>init_stars\<close> leaves.\<close>

lemma start_eq:
  assumes "init_stars s0 = Some s"
  shows "start s0 = Some ((init_aliens (s\<lparr>current_wave := 1, current_alien_rows := 1,
      current_alien_cols := ALIEN_COLS\<rparr>))
    \<lparr>player := (player s)\<lparr>p_x := 76, p_y := 140\<rparr>,
     player_bullet := (player_bullet s)\<lparr>b_active := False\<rparr>,
     game_state := GAME_STATE_MENU,
     explosions := map (\<lambda>e. e\<lparr>e_active := False\<rparr>) (explosions s),
     current_alien_move_delay := 20,
     alien_timer := 20\<rparr>)"
  unfolding start_def assms Let_def by (simp add: init_aliens_fields)

text \<open>Neither does \<open>start\<close> trap.\<close>

lemma start_total: "\<exists>s. start s0 = Some s"
proof -
  obtain s where "init_stars s0 = Some s" using init_stars_total by blast
  then show ?thesis using start_eq by blast
qed

lemma start_inv:
  assumes "start s0 = Some s'" and "length (aliens s0) = TOTAL_ALIENS"
    and "alien_direction s0 = 1 \<or> alien_direction s0 = - 1"
    and "length (explosions s0) = TOTAL_ALIENS" and "length (stars s0) = STAR_COUNT"
    and "current_jingle_note_index s0 = 0"
  shows "game_inv s'"
proof -
  obtain s where s: "init_stars s0 = Some s" using init_stars_total by blast
  obtain st seed where fr: "s = s0\<lparr>stars := st, random_seed := seed\<rparr>"
    and st: "length st = length (stars s0)"
    using init_stars_frame [OF s] by blast
  define s1 where "s1 = s\<lparr>current_wave := 1, current_alien_rows := 1,
      current_alien_cols := ALIEN_COLS\<rparr>"
  have len: "length (aliens s1) = TOTAL_ALIENS" and cols: "current_alien_cols s1 = ALIEN_COLS"
    using assms(2) by (simp_all add: s1_def fr)
  have "s' = (init_aliens s1)
    \<lparr>player := (player s)\<lparr>p_x := 76, p_y := 140\<rparr>,
     player_bullet := (player_bullet s)\<lparr>b_active := False\<rparr>,
     game_state := GAME_STATE_MENU,
     explosions := map (\<lambda>e. e\<lparr>e_active := False\<rparr>) (explosions s),
     current_alien_move_delay := 20,
     alien_timer := 20\<rparr>"
    using start_eq [OF s] assms(1) by (simp add: s1_def)
  then show ?thesis
    using init_aliens_count [OF len cols] assms(3-6) st
    by (simp add: game_inv_def alive_count_def init_aliens_fields s1_def fr)
qed

lemma playing_inv:
  assumes "game_inv s"
  shows "game_inv (update_explosions (play_wave_jingle (check_player_collision
      (check_collisions (update_aliens (update_player_bullet (update_player g s)))))))"
  using assms
  by (intro update_explosions_inv play_wave_jingle_inv check_player_collision_inv
      check_collisions_inv update_aliens_inv update_player_bullet_inv update_player_inv)

lemma update_inv:
  assumes "game_inv s" and "update g m s = Some s'"
  shows "game_inv s'"
proof -
  obtain s1 where s1: "draw_background_stars s = Some s1"
    using draw_background_stars_total by blast
  have i1: "game_inv s1" using assms(1) s1 by (rule draw_background_stars_inv)
  define s2 where "s2 = update_explosions (play_wave_jingle (check_player_collision
      (check_collisions (update_aliens (update_player_bullet (update_player g s1))))))"
  have i2: "game_inv s2" unfolding s2_def using i1 by (rule playing_inv)
  have eq: "update g m s =
     (if game_state s1 = GAME_STATE_MENU then Some (update_menu g m s1)
      else if game_state s1 = GAME_STATE_PLAYING then
        (case draw_explosions s2 of
           None \<Rightarrow> None
         | Some s \<Rightarrow> Some (if aliens_left s \<le> 0 then next_wave s else s))
      else Some s1)"
    unfolding update_def s1 s2_def Let_def by simp
  show ?thesis
    using assms(2) i1 i2 unfolding eq
    by (auto split: if_splits option.splits
        intro: update_menu_inv next_wave_inv draw_explosions_inv)
qed

text \<open>A frame never traps: every \<open>random_int\<close> of a frame has a range of its own, not zero.\<close>

lemma update_total: "\<exists>s'. update g m s = Some s'"
proof -
  obtain s1 where s1: "draw_background_stars s = Some s1"
    using draw_background_stars_total by blast
  define s2 where "s2 = update_explosions (play_wave_jingle (check_player_collision
      (check_collisions (update_aliens (update_player_bullet (update_player g s1))))))"
  obtain s3 where s3: "draw_explosions s2 = Some s3"
    using draw_explosions_total by blast
  have eq: "update g m s =
     (if game_state s1 = GAME_STATE_MENU then Some (update_menu g m s1)
      else if game_state s1 = GAME_STATE_PLAYING then
        (case draw_explosions s2 of
           None \<Rightarrow> None
         | Some s \<Rightarrow> Some (if aliens_left s \<le> 0 then next_wave s else s))
      else Some s1)"
    unfolding update_def s1 s2_def Let_def by simp
  show ?thesis unfolding eq s3 by simp
qed

lemma initial_game_start_inv: "start initial_game = Some s \<Longrightarrow> game_inv s"
  by (rule start_inv [of initial_game]) (simp_all add: initial_game_def)

text \<open>The invariant holds after \<open>start\<close> and is kept by every frame, whatever the input.\<close>

lemma reachable_inv: "reachable s \<Longrightarrow> game_inv s"
proof (induction rule: reachable.induct)
  case (reachable_start s)
  then show ?case by (rule initial_game_start_inv)
next
  case (reachable_update s gamepad mouse_buttons s')
  then show ?case using update_inv by blast
qed

subsection \<open>What \<open>start\<close> leaves of the player\<close>

lemma start_player:
  assumes "start s0 = Some s"
  shows "player s = \<lparr>p_x = 76, p_y = 140\<rparr>"
proof -
  obtain t where t: "init_stars s0 = Some t" using init_stars_total by blast
  show ?thesis using start_eq [OF t] assms by auto
qed

subsection \<open>The formation step\<close>

lemma edge_reached_from_iff:
  "edge_reached_from i s \<longleftrightarrow>
     (\<exists>j. i \<le> j \<and> j < TOTAL_ALIENS \<and> alive (aliens s ! j) \<and>
        ((a_x (aliens s ! j) \<ge> 152 \<and> alien_direction s > 0) \<or>
         (a_x (aliens s ! j) \<le> 0 \<and> alien_direction s < 0)))"
proof (induction i s rule: edge_reached_from.induct)
  case (1 i s)
  let ?P = "\<lambda>j. alive (aliens s ! j) \<and>
        ((a_x (aliens s ! j) \<ge> 152 \<and> alien_direction s > 0) \<or>
         (a_x (aliens s ! j) \<le> 0 \<and> alien_direction s < 0))"
  show ?case
  proof (cases "i < TOTAL_ALIENS")
    case False
    then show ?thesis by (simp add: edge_reached_from.simps [of i])
  next
    case True
    show ?thesis
    proof (cases "?P i")
      case True
      then show ?thesis
        using \<open>i < TOTAL_ALIENS\<close> by (auto simp: edge_reached_from.simps [of i])
    next
      case False
      then have "edge_reached_from i s = edge_reached_from (Suc i) s"
        using True by (auto simp: edge_reached_from.simps [of i])
      also have "\<dots> = (\<exists>j. Suc i \<le> j \<and> j < TOTAL_ALIENS \<and> ?P j)"
        using "1.IH" True False by simp
      also have "\<dots> = (\<exists>j. i \<le> j \<and> j < TOTAL_ALIENS \<and> ?P j)"
        using False by (metis Suc_leD Suc_leI le_neq_implies_less)
      finally show ?thesis .
    qed
  qed
qed

subsection \<open>Explosions\<close>

lemma create_explosion_from_none:
  "(\<forall>j. i \<le> j \<and> j < TOTAL_ALIENS \<longrightarrow> e_active (explosions s ! j)) \<Longrightarrow>
   create_explosion_from i x y s = s"
proof (induction i x y s rule: create_explosion_from.induct)
  case (1 i x y s)
  show ?case
  proof (cases "i < TOTAL_ALIENS")
    case True
    then have "e_active (explosions s ! i)" using "1.prems" by simp
    moreover have "create_explosion_from (Suc i) x y s = s"
      using True \<open>e_active (explosions s ! i)\<close> "1.prems" by (intro "1.IH") simp_all
    ultimately show ?thesis using True by (simp add: create_explosion_from.simps [of i])
  next
    case False
    then show ?thesis by (simp add: create_explosion_from.simps [of i])
  qed
qed

lemma create_explosion_from_first:
  "i \<le> k \<Longrightarrow> k < TOTAL_ALIENS \<Longrightarrow> \<not> e_active (explosions s ! k) \<Longrightarrow>
   (\<forall>j. i \<le> j \<and> j < k \<longrightarrow> e_active (explosions s ! j)) \<Longrightarrow>
   create_explosion_from i x y s =
     s\<lparr>explosions := (explosions s)[k := (explosions s ! k)
         \<lparr>e_x := x, e_y := y, life := EXPLOSION_DURATION, e_active := True\<rparr>]\<rparr>"
proof (induction i x y s rule: create_explosion_from.induct)
  case (1 i x y s)
  have i: "i < TOTAL_ALIENS" using "1.prems" by simp
  show ?case
  proof (cases "i = k")
    case True
    then show ?thesis using "1.prems" by (subst create_explosion_from.simps) simp
  next
    case False
    then have act: "e_active (explosions s ! i)" using "1.prems" by simp
    have "create_explosion_from (Suc i) x y s =
        s\<lparr>explosions := (explosions s)[k := (explosions s ! k)
         \<lparr>e_x := x, e_y := y, life := EXPLOSION_DURATION, e_active := True\<rparr>]\<rparr>"
      using i act False "1.prems" by (intro "1.IH") simp_all
    then show ?thesis using i act by (simp add: create_explosion_from.simps [of i])
  qed
qed

lemma explosion_all_fields:
  "e\<lparr>e_x := x, e_y := y, life := l, e_active := a\<rparr> = \<lparr>e_x = x, e_y = y, life = l, e_active = a\<rparr>"
  by (cases e) simp

subsection \<open>The bullet\<close>

lemma update_player_fire:
  assumes "gamepad AND BUTTON_1 \<noteq> 0" and "\<not> b_active (player_bullet s)"
  shows "player_bullet (update_player gamepad s) =
           \<lparr>b_x = p_x (player (update_player gamepad s)) + 3, b_y = p_y (player s),
            b_active = True\<rparr>"
    and "tones (update_player gamepad s) = tones s @ [Tone 1000 10 50 TONE_PULSE1]"
proof -
  define s1 where "s1 = (if gamepad AND BUTTON_LEFT \<noteq> 0
               then s\<lparr>player := (player s)\<lparr>p_x := p_x (player s) - PLAYER_SPEED\<rparr>\<rparr> else s)"
  define s2 where "s2 = (if gamepad AND BUTTON_RIGHT \<noteq> 0
               then s1\<lparr>player := (player s1)\<lparr>p_x := p_x (player s1) + PLAYER_SPEED\<rparr>\<rparr> else s1)"
  define s3 where "s3 = (if p_x (player s2) < 0 then s2\<lparr>player := (player s2)\<lparr>p_x := 0\<rparr>\<rparr> else s2)"
  define s4 where "s4 = (if p_x (player s3) > 160 - 8
               then s3\<lparr>player := (player s3)\<lparr>p_x := 160 - 8\<rparr>\<rparr> else s3)"
  have same: "player_bullet s4 = player_bullet s" "tones s4 = tones s"
    "p_y (player s4) = p_y (player s)"
    by (simp_all add: s4_def s3_def s2_def s1_def)
  have "update_player gamepad s =
      (if gamepad AND BUTTON_1 \<noteq> 0 \<and> \<not> b_active (player_bullet s4)
         then s4\<lparr>player_bullet := (player_bullet s4)
                  \<lparr>b_x := p_x (player s4) + 3, b_y := p_y (player s4), b_active := True\<rparr>,
                tones := tones s4 @ [Tone 1000 10 50 TONE_PULSE1]\<rparr>
         else s4)"
    unfolding update_player_def Let_def s4_def s3_def s2_def s1_def by (rule refl)
  then have eq: "update_player gamepad s =
      s4\<lparr>player_bullet := (player_bullet s4)
                  \<lparr>b_x := p_x (player s4) + 3, b_y := p_y (player s4), b_active := True\<rparr>,
                tones := tones s4 @ [Tone 1000 10 50 TONE_PULSE1]\<rparr>"
    using assms same by simp
  show "player_bullet (update_player gamepad s) =
           \<lparr>b_x = p_x (player (update_player gamepad s)) + 3, b_y = p_y (player s),
            b_active = True\<rparr>"
    unfolding eq using same(3) by (cases "player_bullet s4") simp
  show "tones (update_player gamepad s) = tones s @ [Tone 1000 10 50 TONE_PULSE1]"
    unfolding eq using same(2) by simp
qed

lemma update_player_bullet_active:
  assumes "b_active (player_bullet s)"
  shows "update_player_bullet s =
      s\<lparr>player_bullet := (player_bullet s)
         \<lparr>b_y := b_y (player_bullet s) - 4, b_active := \<not> b_y (player_bullet s) - 4 < 0\<rparr>\<rparr>"
  using assms by (simp add: update_player_bullet_def Let_def BULLET_SPEED_def)

lemma update_player_bullet_inactive:
  "\<not> b_active (player_bullet s) \<Longrightarrow> update_player_bullet s = s"
  by (simp add: update_player_bullet_def)

text \<open>A bullet at \<open>y = 140\<close>: 35 updates bring it to \<open>y = 0\<close>, still active.\<close>

lemma bullet_flight:
  assumes "player_bullet s = \<lparr>b_x = x, b_y = 140, b_active = True\<rparr>" and "k \<le> 35"
  shows "player_bullet ((update_player_bullet ^^ k) s) =
      \<lparr>b_x = x, b_y = 140 - 4 * int k, b_active = True\<rparr>"
  using assms(2)
proof (induction k)
  case 0
  then show ?case using assms(1) by simp
next
  case (Suc k)
  then have ih: "player_bullet ((update_player_bullet ^^ k) s) =
      \<lparr>b_x = x, b_y = 140 - 4 * int k, b_active = True\<rparr>"
    by simp
  then have "b_active (player_bullet ((update_player_bullet ^^ k) s))" by simp
  then show ?case
    using Suc.prems ih by (simp add: update_player_bullet_active)
qed

lemma bullet_gone:
  assumes "player_bullet s = \<lparr>b_x = x, b_y = 140, b_active = True\<rparr>" and "36 \<le> k"
  shows "player_bullet ((update_player_bullet ^^ k) s) =
      \<lparr>b_x = x, b_y = - 4, b_active = False\<rparr>"
  using assms(2)
proof (induction k)
  case 0
  then show ?case by simp
next
  case (Suc k)
  show ?case
  proof (cases "k = 35")
    case True
    let ?t = "(update_player_bullet ^^ 35) s"
    have "player_bullet ?t = \<lparr>b_x = x, b_y = 140 - 4 * int 35, b_active = True\<rparr>"
      using assms(1) by (rule bullet_flight) simp
    then have "player_bullet (update_player_bullet ?t) = \<lparr>b_x = x, b_y = - 4, b_active = False\<rparr>"
      by (simp add: update_player_bullet_active)
    moreover have "(update_player_bullet ^^ Suc k) s = update_player_bullet ?t"
      by (simp only: True funpow.simps o_apply)
    ultimately show ?thesis by simp
  next
    case False
    then have "player_bullet ((update_player_bullet ^^ k) s) =
        \<lparr>b_x = x, b_y = - 4, b_active = False\<rparr>"
      using Suc by simp
    then show ?thesis by (simp add: update_player_bullet_inactive)
  qed
qed

subsection \<open>The count of alive aliens\<close>

lemma bullet_hit_count:
  assumes "i < length (aliens s)" and "alive (aliens s ! i)"
  shows "aliens_left (bullet_hit i s) = aliens_left s - 1"
    and "alive_count (bullet_hit i s) = alive_count s - 1"
    and "length (aliens (bullet_hit i s)) = length (aliens s)"
proof -
  define s1 where "s1 = s\<lparr>aliens := (aliens s)[i := (aliens s ! i)\<lparr>alive := False\<rparr>]\<rparr>"
  obtain es where s2: "create_explosion (a_x (aliens s1 ! i)) (a_y (aliens s1 ! i)) s1
      = s1\<lparr>explosions := es\<rparr>" and es: "length es = length (explosions s1)"
    using create_explosion_frame by blast
  have eq: "bullet_hit i s =
      s1\<lparr>explosions := es,
         player_bullet := (player_bullet s1)\<lparr>b_active := False\<rparr>,
         score := score s1 + 10,
         aliens_left := aliens_left s1 - 1,
         tones := tones s1 @ [Tone 200 15 80 TONE_NOISE]\<rparr>"
    unfolding bullet_hit_def Let_def s1_def [symmetric] s2 by simp
  show "aliens_left (bullet_hit i s) = aliens_left s - 1" by (simp add: eq s1_def)
  show "alive_count (bullet_hit i s) = alive_count s - 1"
    using assms kill_one_count [of i "aliens s"] by (simp add: eq s1_def alive_count_def)
  show "length (aliens (bullet_hit i s)) = length (aliens s)" by (simp add: eq s1_def)
qed

lemma check_collisions_from_count:
  assumes "length (aliens s) = TOTAL_ALIENS" and "aliens_left s = alive_count s"
  shows "aliens_left (check_collisions_from i s) = alive_count (check_collisions_from i s)"
  using assms
proof (induction i s rule: check_collisions_from.induct)
  case (1 i s)
  then show ?case
    by (subst (1 2) check_collisions_from.simps) (simp add: bullet_hit_count)
qed

lemma check_collisions_count:
  assumes "length (aliens s) = TOTAL_ALIENS" and "aliens_left s = alive_count s"
  shows "aliens_left (check_collisions s) = alive_count (check_collisions s)"
  using assms by (simp add: check_collisions_def check_collisions_from_count)

lemma next_wave_count:
  assumes "length (aliens s) = TOTAL_ALIENS"
  shows "aliens_left (next_wave s) = alive_count (next_wave s)"
proof -
  define s1 where "s1 = s\<lparr>current_wave := current_wave s + 1\<rparr>"
  define s2 where "s2 = s1\<lparr>current_alien_move_delay := 20 - (current_wave s1 * 3)\<rparr>"
  define s3 where "s3 = (if current_alien_move_delay s2 < 5
               then s2\<lparr>current_alien_move_delay := 4\<rparr> else s2)"
  define s4 where "s4 = s3\<lparr>alien_timer := current_alien_move_delay s3\<rparr>"
  define s5 where "s5 = s4\<lparr>current_alien_cols := ALIEN_COLS\<rparr>"
  define s6 where "s6 = s5\<lparr>current_alien_rows := (current_wave s5 + 1) div 2\<rparr>"
  define s7 where "s7 = (if current_alien_rows s6 > ALIEN_ROWS
               then s6\<lparr>current_alien_rows := ALIEN_ROWS\<rparr> else s6)"
  have eq: "next_wave s = (init_aliens s7)\<lparr>alien_direction := 1,
      current_jingle_note_index := 0, jingle_note_timer := 0, playing_wave_jingle := True\<rparr>"
    unfolding next_wave_def Let_def s7_def s6_def s5_def s4_def s3_def s2_def s1_def by simp
  have len: "length (aliens s7) = TOTAL_ALIENS" and cols: "current_alien_cols s7 = ALIEN_COLS"
    using assms by (simp_all add: s7_def s6_def s5_def s4_def s3_def s2_def s1_def)
  show ?thesis
    using init_aliens_count(1) [OF len cols] by (simp add: eq alive_count_def)
qed

subsection \<open>Game over, and a star step\<close>

lemma check_player_collision_from_hit:
  assumes "i \<le> k" and "k < TOTAL_ALIENS" and "alive (aliens s ! k)"
    and "p_x (player s) < a_x (aliens s ! k) + 8" and "p_x (player s) + 8 > a_x (aliens s ! k)"
    and "p_y (player s) < a_y (aliens s ! k) + 8" and "p_y (player s) + 8 > a_y (aliens s ! k)"
  shows "check_player_collision_from i s = game_over s"
  using assms
proof (induction i s rule: check_player_collision_from.induct)
  case (1 i s)
  have i: "i < TOTAL_ALIENS" using "1.prems" by simp
  show ?case
  proof (cases "i = k")
    case True
    then show ?thesis using "1.prems" by (subst check_player_collision_from.simps) simp
  next
    case False
    then have "Suc i \<le> k" using "1.prems" by simp
    then have "alive (aliens s ! i) \<and>
            p_x (player s) < a_x (aliens s ! i) + 8 \<and>
            p_x (player s) + 8 > a_x (aliens s ! i) \<and>
            p_y (player s) < a_y (aliens s ! i) + 8 \<and>
            p_y (player s) + 8 > a_y (aliens s ! i) \<or>
          check_player_collision_from (Suc i) s = game_over s"
      using i "1.prems" "1.IH" by blast
    then show ?thesis using i by (subst check_player_collision_from.simps) auto
  qed
qed

text \<open>Without an alive alien on the player, \<open>check_player_collision\<close> changes nothing.\<close>

lemma check_player_collision_from_miss:
  assumes "\<forall>k. i \<le> k \<and> k < TOTAL_ALIENS \<longrightarrow>
    \<not> (alive (aliens s ! k) \<and>
       p_x (player s) < a_x (aliens s ! k) + 8 \<and> p_x (player s) + 8 > a_x (aliens s ! k) \<and>
       p_y (player s) < a_y (aliens s ! k) + 8 \<and> p_y (player s) + 8 > a_y (aliens s ! k))"
  shows "check_player_collision_from i s = s"
  using assms
proof (induction i s rule: check_player_collision_from.induct)
  case (1 i s)
  show ?case
  proof (cases "i < TOTAL_ALIENS")
    case True
    then have "check_player_collision_from (Suc i) s = s"
      using "1.prems" by (intro "1.IH") auto
    then show ?thesis
      using True "1.prems" by (subst check_player_collision_from.simps) auto
  next
    case False
    then show ?thesis by (subst check_player_collision_from.simps) simp
  qed
qed

text \<open>
  What the reset of \<open>check_player_collision\<close> leaves: everything the claim C1 lists, except
  that \<open>init_aliens\<close> runs before \<open>current_alien_rows\<close> is set to 3, so that the aliens are
  laid out with the rows of the game that ended.
\<close>

lemma game_over_fields:
  "game_state (game_over s) = GAME_STATE_MENU"
  "tones (game_over s) = tones s @ [Tone 50 60 100 TONE_TRIANGLE]"
  "player (game_over s) = (player s)\<lparr>p_x := 76\<rparr>"
  "b_active (player_bullet (game_over s)) = False"
  "score (game_over s) = 0"
  "alien_timer (game_over s) = 20"
  "alien_direction (game_over s) = 1"
  "current_wave (game_over s) = 1"
  "current_alien_rows (game_over s) = 3"
  "current_alien_cols (game_over s) = ALIEN_COLS"
  "aliens (game_over s) = aliens (init_aliens (s\<lparr>game_state := GAME_STATE_MENU,
      tones := tones s @ [Tone 50 60 100 TONE_TRIANGLE]\<rparr>))"
  "aliens_left (game_over s) = aliens_left (init_aliens (s\<lparr>game_state := GAME_STATE_MENU,
      tones := tones s @ [Tone 50 60 100 TONE_TRIANGLE]\<rparr>))"
  by (simp_all add: game_over_def Let_def init_aliens_fields)

lemma check_player_collision_resets:
  assumes "k < TOTAL_ALIENS" and "alive (aliens s ! k)"
    and "p_x (player s) < a_x (aliens s ! k) + 8" and "p_x (player s) + 8 > a_x (aliens s ! k)"
    and "p_y (player s) < a_y (aliens s ! k) + 8" and "p_y (player s) + 8 > a_y (aliens s ! k)"
  shows "check_player_collision s = game_over s"
  unfolding check_player_collision_def
  using assms by (intro check_player_collision_from_hit [of 0 k]) simp_all

text \<open>
  One star step: \<open>y\<close> grows by \<open>min(speed, 2)\<close>; above 160 the star goes back to \<open>y = 0\<close> with
  \<open>x\<close> drawn by \<open>random_int(0, 159)\<close>; otherwise its \<open>x\<close> and the seed stay.
\<close>

lemma move_star_step:
  assumes "i < length (stars s)"
  shows "move_star i s =
    (if s_y (stars s ! i) + min (speed (stars s ! i)) 2 > 160
     then map_option
            (\<lambda>(x, seed'). s\<lparr>stars := (stars s)[i := (stars s ! i)\<lparr>s_y := 0, s_x := x\<rparr>],
                            random_seed := seed'\<rparr>)
            (random_int 0 159 (random_seed s))
     else Some (s\<lparr>stars := (stars s)[i := (stars s ! i)
                  \<lparr>s_y := s_y (stars s ! i) + min (speed (stars s ! i)) 2\<rparr>]\<rparr>))"
proof -
  define s1 where "s1 = s\<lparr>stars := (stars s)[i := (stars s ! i)
                  \<lparr>s_y := s_y (stars s ! i) + minimum (speed (stars s ! i)) 2\<rparr>]\<rparr>"
  define s2 where "s2 = s1\<lparr>stars := (stars s1)[i := (stars s1 ! i)\<lparr>s_y := 0\<rparr>]\<rparr>"
  have eq: "move_star i s = (if s_y (stars s1 ! i) > 160 then
           (case random_int 0 159 (random_seed s2) of
                 None \<Rightarrow> None
               | Some (x, seed') \<Rightarrow>
                   Some (s2\<lparr>stars := (stars s2)[i := (stars s2 ! i)\<lparr>s_x := x\<rparr>],
                           random_seed := seed'\<rparr>))
         else Some s1)"
    unfolding move_star_def Let_def s2_def s1_def by (rule refl)
  have m: "minimum a b = min a b" for a b by (simp add: minimum_def min_def)
  have y1: "s_y (stars s1 ! i) = s_y (stars s ! i) + min (speed (stars s ! i)) 2"
    using assms by (simp add: s1_def m)
  have seed: "random_seed s2 = random_seed s" by (simp add: s2_def s1_def)
  have upd: "s2\<lparr>stars := (stars s2)[i := (stars s2 ! i)\<lparr>s_x := x\<rparr>], random_seed := seed'\<rparr> =
      s\<lparr>stars := (stars s)[i := (stars s ! i)\<lparr>s_y := 0, s_x := x\<rparr>], random_seed := seed'\<rparr>"
    for x seed'
    using assms by (simp add: s2_def s1_def)
  show ?thesis
    unfolding eq y1 seed upd
    by (auto simp: s1_def m split: option.splits)
qed

subsection \<open>The row of the player\<close>

lemma draw_background_stars_player:
  assumes "draw_background_stars s = Some s'"
  shows "player s' = player s"
proof (rule for_each_inv [where P = "\<lambda>t. player t = player s" and body = move_star])
  show "for_each move_star [0..<STAR_COUNT] s = Some s'"
    using assms by (simp only: draw_background_stars_def)
next
  fix i t t' assume "player t = player s" and "move_star i t = Some t'"
  then show "player t' = player s" using move_star_frame [of i t t'] by auto
qed simp

lemma draw_explosions_player:
  assumes "draw_explosions s = Some s'"
  shows "player s' = player s"
proof (rule for_each_inv [where P = "\<lambda>t. player t = player s" and body = draw_explosion])
  show "for_each draw_explosion [0..<TOTAL_ALIENS] s = Some s'"
    using assms by (simp only: draw_explosions_def)
next
  fix i t t' assume "player t = player s" and "draw_explosion i t = Some t'"
  then show "player t' = player s" using draw_explosion_frame [of i t t'] by auto
qed simp

lemma bullet_hit_player: "player (bullet_hit i s) = player s"
proof -
  define s1 where "s1 = s\<lparr>aliens := (aliens s)[i := (aliens s ! i)\<lparr>alive := False\<rparr>]\<rparr>"
  obtain es where s2: "create_explosion (a_x (aliens s1 ! i)) (a_y (aliens s1 ! i)) s1
      = s1\<lparr>explosions := es\<rparr>" and es: "length es = length (explosions s1)"
    using create_explosion_frame by blast
  show ?thesis
    unfolding bullet_hit_def Let_def s1_def [symmetric] s2 by (simp add: s1_def)
qed

lemma check_collisions_player: "player (check_collisions s) = player s"
proof -
  have "player (check_collisions_from i s) = player s" for i
  proof (induction i s rule: check_collisions_from.induct)
    case (1 i s)
    then show ?case
      by (subst check_collisions_from.simps) (simp add: bullet_hit_player)
  qed
  then show ?thesis by (simp add: check_collisions_def)
qed

lemma check_player_collision_player_y:
  "p_y (player (check_player_collision s)) = p_y (player s)"
proof -
  have "p_y (player (check_player_collision_from i s)) = p_y (player s)" for i
  proof (induction i s rule: check_player_collision_from.induct)
    case (1 i s)
    then show ?case
      by (subst check_player_collision_from.simps) (simp add: game_over_fields)
  qed
  then show ?thesis by (simp add: check_player_collision_def)
qed

lemma playing_player_y:
  "p_y (player (update_explosions (play_wave_jingle (check_player_collision
      (check_collisions (update_aliens (update_player_bullet (update_player g s)))))))) =
   p_y (player s)"
proof -
  have 1: "player (update_explosions t) = player t" for t
    by (simp add: update_explosions_def)
  have 2: "player (play_wave_jingle t) = player t" for t
    by (simp add: play_wave_jingle_def Let_def)
  have 3: "player (update_aliens t) = player t" for t
    by (simp add: update_aliens_def Let_def)
  have 4: "player (update_player_bullet t) = player t" for t
    by (simp add: update_player_bullet_def Let_def)
  show ?thesis
    by (simp add: 1 2 3 4 check_player_collision_player_y check_collisions_player
        update_player_fields)
qed

text \<open>No frame changes \<open>player.y\<close>, from any state.\<close>

lemma update_player_y:
  assumes "update g m s = Some s'"
  shows "p_y (player s') = p_y (player s)"
proof -
  obtain s1 where s1: "draw_background_stars s = Some s1"
    using draw_background_stars_total by blast
  have p1: "player s1 = player s" using s1 by (rule draw_background_stars_player)
  define s2 where "s2 = update_explosions (play_wave_jingle (check_player_collision
      (check_collisions (update_aliens (update_player_bullet (update_player g s1))))))"
  have p2: "p_y (player s2) = p_y (player s)"
    unfolding s2_def playing_player_y p1 by (rule refl)
  have eq: "update g m s =
     (if game_state s1 = GAME_STATE_MENU then Some (update_menu g m s1)
      else if game_state s1 = GAME_STATE_PLAYING then
        (case draw_explosions s2 of
           None \<Rightarrow> None
         | Some s \<Rightarrow> Some (if aliens_left s \<le> 0 then next_wave s else s))
      else Some s1)"
    unfolding update_def s1 s2_def Let_def by simp
  have menu: "p_y (player (update_menu g m s1)) = p_y (player s)"
    using p1 by (simp add: update_menu_def Let_def init_aliens_fields)
  show ?thesis
    using assms p1 p2 menu draw_explosions_player unfolding eq
    by (auto split: if_splits option.splits simp: next_wave_fields)
qed

section \<open>The claims\<close>

text \<open>
  C1, at a failing input. \<open>contact_state\<close> satisfies the invariant of the reachable states,
  and in it the alien of slot 4 overlaps the player. \<open>check_player_collision\<close> resets the
  game: Menu, player at 76, no bullet, score 0, wave 1, direction \<open>+1\<close>, timer 20, the low
  triangle tone, \<open>current_alien_rows = 3\<close>. But \<open>init_aliens\<close> has run before the rows were
  set to 3, and the aliens are those of the one row that was in use: 8 alive, where a
  formation of 3 rows has 24. So it is at the end of the frame; the 3 rows only appear when
  the next game is started from the menu.
\<close>

theorem game_over_keeps_old_rows:
  "game_inv contact_state \<and>
   check_player_collision contact_state = game_over contact_state \<and>
   game_state (check_player_collision contact_state) = GAME_STATE_MENU \<and>
   tones (check_player_collision contact_state) = [Tone 50 60 100 TONE_TRIANGLE] \<and>
   player (check_player_collision contact_state) = \<lparr>p_x = 76, p_y = 140\<rparr> \<and>
   b_active (player_bullet (check_player_collision contact_state)) = False \<and>
   score (check_player_collision contact_state) = 0 \<and>
   current_wave (check_player_collision contact_state) = 1 \<and>
   alien_direction (check_player_collision contact_state) = 1 \<and>
   alien_timer (check_player_collision contact_state) = 20 \<and>
   current_alien_rows (check_player_collision contact_state) = 3 \<and>
   aliens_left (check_player_collision contact_state) = 8 \<and>
   map alive (aliens (check_player_collision contact_state)) =
     replicate 8 True @ replicate 40 False \<and>
   aliens_left (init_aliens (contact_state\<lparr>current_alien_rows := 3\<rparr>)) = 24 \<and>
   map alive (aliens (init_aliens (contact_state\<lparr>current_alien_rows := 3\<rparr>))) =
     replicate 24 True @ replicate 24 False \<and>
   map_option (map (\<lambda>s. (game_state s, current_alien_rows s, aliens_left s, alive_count s)))
     (run_frames [(0, 0), (BUTTON_1, 0)] contact_state) =
   Some [(GAME_STATE_MENU, 3, 8, 8), (GAME_STATE_PLAYING, 3, 24, 24)]"
proof -
  have "check_player_collision contact_state = game_over contact_state"
    by (rule check_player_collision_resets [of 4]) code_simp+
  moreover have
   "game_state (check_player_collision contact_state) = GAME_STATE_MENU"
   "tones (check_player_collision contact_state) = [Tone 50 60 100 TONE_TRIANGLE]"
   "player (check_player_collision contact_state) = \<lparr>p_x = 76, p_y = 140\<rparr>"
   "b_active (player_bullet (check_player_collision contact_state)) = False"
   "score (check_player_collision contact_state) = 0"
   "current_wave (check_player_collision contact_state) = 1"
   "alien_direction (check_player_collision contact_state) = 1"
   "alien_timer (check_player_collision contact_state) = 20"
   "current_alien_rows (check_player_collision contact_state) = 3"
   "aliens_left (check_player_collision contact_state) = 8"
   "map alive (aliens (check_player_collision contact_state)) =
     replicate 8 True @ replicate 40 False"
   "aliens_left (init_aliens (contact_state\<lparr>current_alien_rows := 3\<rparr>)) = 24"
   "map alive (aliens (init_aliens (contact_state\<lparr>current_alien_rows := 3\<rparr>))) =
     replicate 24 True @ replicate 24 False"
   "map_option (map (\<lambda>s. (game_state s, current_alien_rows s, aliens_left s, alive_count s)))
     (run_frames [(0, 0), (BUTTON_1, 0)] contact_state) =
   Some [(GAME_STATE_MENU, 3, 8, 8), (GAME_STATE_PLAYING, 3, 24, 24)]"
   "game_inv contact_state"
    by code_simp+
  ultimately show ?thesis by (simp only: simp_thms)
qed

text \<open>
  C2, at a failing input: the first frame after \<open>start\<close>. \<open>init_stars\<close> leaves the star of
  slot 24 at \<open>(158, 159)\<close> with speed 1 and the star of slot 45 at \<open>(57, 158)\<close> with speed
  3. The first \<open>update\<close> moves both to \<open>y = 160\<close>, below the last row of the screen, and
  resets neither: they keep their \<open>x\<close> and no random number is drawn. Only the second frame,
  from \<open>y = 160\<close>, sends them back to \<open>y = 0\<close> with random \<open>x\<close>.
\<close>

theorem star_at_160_not_reset:
  "Option.bind (start initial_game)
     (\<lambda>s0. map_option (\<lambda>ss. map (\<lambda>s. (stars s ! 24, stars s ! 45, random_seed s)) (s0 # ss))
        (run_frames [(0, 0), (0, 0)] s0)) =
   Some [(\<lparr>s_x = 158, s_y = 159, speed = 1\<rparr>, \<lparr>s_x = 57, s_y = 158, speed = 3\<rparr>, 1526854643),
         (\<lparr>s_x = 158, s_y = 160, speed = 1\<rparr>, \<lparr>s_x = 57, s_y = 160, speed = 3\<rparr>, 1526854643),
         (\<lparr>s_x = 144, s_y = 0, speed = 1\<rparr>, \<lparr>s_x = 41, s_y = 0, speed = 3\<rparr>, 1513050921)]"
  by code_simp

text \<open>
  C3, as stated, fails. A bullet fired from \<open>y = 140\<close> is deactivated by its 36th update, and
  the 37th leaves its \<open>y\<close> where it was. In frames: \<open>update_player_bullet\<close> runs in the frame
  of the shot too, which ends with the bullet at \<open>y = 136\<close>; the 35th frame after it ends with
  the bullet at \<open>y = -4\<close>, inactive, and frames 36 to 40 do not move it.
\<close>

theorem bullet_forty_frames_counterexample:
  "b_active (player_bullet (update_player BUTTON_1 ready_to_fire)) \<and>
   b_y (player_bullet (update_player BUTTON_1 ready_to_fire)) = 140 \<and>
   \<not> b_active (player_bullet ((update_player_bullet ^^ 36) (update_player BUTTON_1 ready_to_fire))) \<and>
   b_y (player_bullet ((update_player_bullet ^^ 37) (update_player BUTTON_1 ready_to_fire))) =
   b_y (player_bullet ((update_player_bullet ^^ 36) (update_player BUTTON_1 ready_to_fire))) \<and>
   map_option (map (\<lambda>s. (b_y (player_bullet s), b_active (player_bullet s))))
     (run_frames ((BUTTON_1, 0) # replicate 40 (0, 0)) clear_shot) =
   Some (map (\<lambda>k. (136 - 4 * int k, True)) [0..<35] @ replicate 6 (- 4, False))"
proof -
  have trace: "map_option (map (\<lambda>s. (b_y (player_bullet s), b_active (player_bullet s))))
     (run_frames ((BUTTON_1, 0) # replicate 40 (0, 0)) clear_shot) =
   Some (map (\<lambda>k. (136 - 4 * int k, True)) [0..<35] @ replicate 6 (- 4, False))"
    by code_simp
  have b: "BUTTON_1 AND BUTTON_1 \<noteq> 0" by (simp add: BUTTON_1_def)
  have i: "\<not> b_active (player_bullet ready_to_fire)"
    by (simp add: ready_to_fire_def initial_game_def)
  have y: "p_y (player ready_to_fire) = 140" by (simp add: ready_to_fire_def)
  let ?s = "update_player BUTTON_1 ready_to_fire"
  have f: "player_bullet ?s = \<lparr>b_x = p_x (player ?s) + 3, b_y = 140, b_active = True\<rparr>"
    using update_player_fire(1) [OF b i] y by simp
  have "b_active (player_bullet ?s)" "b_y (player_bullet ?s) = 140"
    "\<not> b_active (player_bullet ((update_player_bullet ^^ 36) ?s))"
    "b_y (player_bullet ((update_player_bullet ^^ 37) ?s)) =
     b_y (player_bullet ((update_player_bullet ^^ 36) ?s))"
    using f bullet_gone [OF f, of 36] bullet_gone [OF f, of 37] by simp_all
  then show ?thesis using trace by (simp only: simp_thms)
qed

text \<open>
  C3, amended. If \<open>BUTTON_1\<close> is held and the bullet is inactive, \<open>update_player\<close> makes the
  bullet active at \<open>(player.x + 3, player.y)\<close> and emits the pulse tone. Every
  \<open>update_player_bullet\<close> of an active bullet decreases its \<open>y\<close> by 4 and deactivates it when
  the new \<open>y\<close> is negative. A shot fired from \<open>y = 140\<close> is active at \<open>y = 140 - 4k\<close> after
  \<open>k \<le> 35\<close> updates; the 36th brings it to \<open>y = -4\<close> and deactivates it, and it stays there.
\<close>

theorem fire_and_flight:
  assumes "gamepad AND BUTTON_1 \<noteq> 0" and "\<not> b_active (player_bullet s)"
    and "p_y (player s) = 140"
  shows
   "player_bullet (update_player gamepad s) =
      \<lparr>b_x = p_x (player (update_player gamepad s)) + 3,
       b_y = p_y (player (update_player gamepad s)), b_active = True\<rparr> \<and>
    tones (update_player gamepad s) = tones s @ [Tone 1000 10 50 TONE_PULSE1] \<and>
    (\<forall>t. b_active (player_bullet t) \<longrightarrow>
       player_bullet (update_player_bullet t) =
         (player_bullet t)\<lparr>b_y := b_y (player_bullet t) - 4,
                            b_active := \<not> b_y (player_bullet t) - 4 < 0\<rparr>) \<and>
    (\<forall>k\<le>35. player_bullet ((update_player_bullet ^^ k) (update_player gamepad s)) =
       \<lparr>b_x = p_x (player (update_player gamepad s)) + 3, b_y = 140 - 4 * int k,
        b_active = True\<rparr>) \<and>
    (\<forall>k\<ge>36. player_bullet ((update_player_bullet ^^ k) (update_player gamepad s)) =
       \<lparr>b_x = p_x (player (update_player gamepad s)) + 3, b_y = - 4, b_active = False\<rparr>)"
proof -
  let ?s = "update_player gamepad s"
  have y: "p_y (player ?s) = 140" using assms(3) by (simp add: update_player_fields)
  have f: "player_bullet ?s = \<lparr>b_x = p_x (player ?s) + 3, b_y = 140, b_active = True\<rparr>"
    using update_player_fire(1) [OF assms(1,2)] assms(3) by simp
  have step: "\<forall>t. b_active (player_bullet t) \<longrightarrow>
       player_bullet (update_player_bullet t) =
         (player_bullet t)\<lparr>b_y := b_y (player_bullet t) - 4,
                            b_active := \<not> b_y (player_bullet t) - 4 < 0\<rparr>"
    by (simp add: update_player_bullet_active)
  show ?thesis
    using f y update_player_fire(2) [OF assms(1,2)] step bullet_flight [OF f] bullet_gone [OF f]
    by simp
qed

theorem fire_and_flight_witness:
  "player_bullet (update_player BUTTON_1 ready_to_fire) = \<lparr>b_x = 79, b_y = 140, b_active = True\<rparr> \<and>
   tones (update_player BUTTON_1 ready_to_fire) = [Tone 1000 10 50 TONE_PULSE1] \<and>
   player_bullet ((update_player_bullet ^^ 35) (update_player BUTTON_1 ready_to_fire)) =
     \<lparr>b_x = 79, b_y = 0, b_active = True\<rparr> \<and>
   player_bullet ((update_player_bullet ^^ 36) (update_player BUTTON_1 ready_to_fire)) =
     \<lparr>b_x = 79, b_y = - 4, b_active = False\<rparr>"
proof -
  have b: "BUTTON_1 AND BUTTON_1 \<noteq> 0" by (simp add: BUTTON_1_def)
  have i: "\<not> b_active (player_bullet ready_to_fire)"
    by (simp add: ready_to_fire_def initial_game_def)
  have y: "p_y (player ready_to_fire) = 140" by (simp add: ready_to_fire_def)
  have x: "p_x (player (update_player BUTTON_1 ready_to_fire)) = 76"
    by (simp add: update_player_def ready_to_fire_def initial_game_def Let_def
        BUTTON_1_def BUTTON_LEFT_def BUTTON_RIGHT_def PLAYER_SPEED_def)
  have t: "tones ready_to_fire = []" by (simp add: ready_to_fire_def initial_game_def)
  show ?thesis
    using fire_and_flight [OF b i y] by (simp add: x y t update_player_fields)
qed

text \<open>
  C4. After \<open>next_wave\<close> the wave number is one more than before and
  \<open>current_alien_move_delay\<close> is \<open>max(4, 20 - 3 * current_wave)\<close> for the new wave number,
  hence at least 4; and the delay is at least 4 in every reachable state, whatever the wave.
\<close>

theorem next_wave_move_delay:
  "current_wave (next_wave s) = current_wave s + 1 \<and>
   current_alien_move_delay (next_wave s) = max 4 (20 - 3 * current_wave (next_wave s)) \<and>
   4 \<le> current_alien_move_delay (next_wave s) \<and>
   (reachable s \<longrightarrow> 4 \<le> current_alien_move_delay s)"
  using reachable_inv [of s] by (simp add: next_wave_fields game_inv_def)

theorem next_wave_move_delay_witness:
  "current_wave (next_wave hit_state) = 2 \<and>
   current_alien_move_delay (next_wave hit_state) = 14 \<and>
   current_alien_move_delay (next_wave (hit_state\<lparr>current_wave := 5\<rparr>)) = 4 \<and>
   reachable (the (update BUTTON_LEFT 0 (the (start initial_game)))) \<and>
   4 \<le> current_alien_move_delay (the (update BUTTON_LEFT 0 (the (start initial_game))))"
proof -
  obtain s where s: "start initial_game = Some s" using start_total by blast
  obtain s' where s': "update BUTTON_LEFT 0 s = Some s'" using update_total by blast
  have r: "reachable s'" using reachable_start [OF s] s' by (rule reachable_update)
  have w: "current_wave hit_state = 1" "current_wave (hit_state\<lparr>current_wave := 5\<rparr>) = 5"
    by (simp_all add: hit_state_def initial_game_def)
  show ?thesis
    using next_wave_move_delay [of s'] next_wave_move_delay [of hit_state]
      next_wave_move_delay [of "hit_state\<lparr>current_wave := 5\<rparr>"] r w
    by (simp add: s s')
qed

text \<open>
  C5. On a step tick of \<open>update_aliens\<close> (the decremented \<open>alien_timer\<close> is not positive), with
  \<open>alien_direction\<close> being \<open>+1\<close> or \<open>-1\<close>: the timer is reloaded; if some alive alien has
  \<open>x \<ge> 152\<close> while the direction is \<open>+1\<close>, or \<open>x \<le> 0\<close> while it is \<open>-1\<close>, the direction is
  negated and every slot, alive or not, has its \<open>y\<close> increased by 5 and nothing else changed;
  otherwise the direction stays and every slot has its \<open>x\<close> changed by 5 times the direction
  and nothing else changed.
\<close>

theorem update_aliens_step:
  assumes "alien_timer s \<le> 1" and "alien_direction s = 1 \<or> alien_direction s = - 1"
  shows "alien_timer (update_aliens s) = current_alien_move_delay s \<and>
    (if \<exists>i<TOTAL_ALIENS. alive (aliens s ! i) \<and>
          ((a_x (aliens s ! i) \<ge> 152 \<and> alien_direction s = 1) \<or>
           (a_x (aliens s ! i) \<le> 0 \<and> alien_direction s = - 1))
     then alien_direction (update_aliens s) = - alien_direction s \<and>
          aliens (update_aliens s) = map (\<lambda>a. a\<lparr>a_y := a_y a + 5\<rparr>) (aliens s)
     else alien_direction (update_aliens s) = alien_direction s \<and>
          aliens (update_aliens s) =
            map (\<lambda>a. a\<lparr>a_x := a_x a + alien_direction s * 5\<rparr>) (aliens s))"
proof -
  define s1 where "s1 = s\<lparr>alien_timer := current_alien_move_delay s\<rparr>"
  have eq: "update_aliens s =
     (if edge_reached_from 0 s1
      then s1\<lparr>alien_direction := alien_direction s1 * (- 1),
              aliens := map (\<lambda>a. a\<lparr>a_y := a_y a + 5\<rparr>) (aliens s1)\<rparr>
      else s1\<lparr>aliens := map (\<lambda>a. a\<lparr>a_x := a_x a + alien_direction s1 * 5\<rparr>) (aliens s1)\<rparr>)"
    using assms(1) by (simp add: update_aliens_def Let_def s1_def)
  have edge: "edge_reached_from 0 s1 \<longleftrightarrow>
      (\<exists>i<TOTAL_ALIENS. alive (aliens s ! i) \<and>
          ((a_x (aliens s ! i) \<ge> 152 \<and> alien_direction s = 1) \<or>
           (a_x (aliens s ! i) \<le> 0 \<and> alien_direction s = - 1)))"
    using assms(2) unfolding edge_reached_from_iff by (auto simp: s1_def)
  let ?C = "\<exists>i<TOTAL_ALIENS. alive (aliens s ! i) \<and>
          ((a_x (aliens s ! i) \<ge> 152 \<and> alien_direction s = 1) \<or>
           (a_x (aliens s ! i) \<le> 0 \<and> alien_direction s = - 1))"
  show ?thesis
  proof (cases "edge_reached_from 0 s1")
    case True
    then have c: "?C" unfolding edge .
    have up: "update_aliens s = s1\<lparr>alien_direction := alien_direction s1 * (- 1),
              aliens := map (\<lambda>a. a\<lparr>a_y := a_y a + 5\<rparr>) (aliens s1)\<rparr>"
      using eq True by simp
    have "alien_timer (update_aliens s) = current_alien_move_delay s"
      and "alien_direction (update_aliens s) = - alien_direction s \<and>
          aliens (update_aliens s) = map (\<lambda>a. a\<lparr>a_y := a_y a + 5\<rparr>) (aliens s)"
      by (simp_all add: up s1_def)
    then show ?thesis using c by (simp only: if_P simp_thms)
  next
    case False
    then have c: "\<not> ?C" unfolding edge .
    have up: "update_aliens s =
        s1\<lparr>aliens := map (\<lambda>a. a\<lparr>a_x := a_x a + alien_direction s1 * 5\<rparr>) (aliens s1)\<rparr>"
      using eq False by simp
    have "alien_timer (update_aliens s) = current_alien_move_delay s"
      and "alien_direction (update_aliens s) = alien_direction s \<and>
          aliens (update_aliens s) =
            map (\<lambda>a. a\<lparr>a_x := a_x a + alien_direction s * 5\<rparr>) (aliens s)"
      by (simp_all add: up s1_def)
    then show ?thesis using c by (simp only: if_not_P simp_thms)
  qed
qed

theorem update_aliens_step_witness:
  "alien_direction (update_aliens edge_state) = - 1 \<and>
   aliens (update_aliens edge_state) =
     map (\<lambda>c. \<lparr>a_x = 70 + 12 * int c, a_y = 25, alive = True\<rparr>) [0..<8] @
     replicate 40 \<lparr>a_x = 50, a_y = 5, alive = False\<rparr> \<and>
   alien_direction (update_aliens (edge_state\<lparr>alien_direction := - 1\<rparr>)) = - 1 \<and>
   aliens (update_aliens (edge_state\<lparr>alien_direction := - 1\<rparr>)) =
     map (\<lambda>c. \<lparr>a_x = 65 + 12 * int c, a_y = 20, alive = True\<rparr>) [0..<8] @
     replicate 40 \<lparr>a_x = 45, a_y = 0, alive = False\<rparr>"
proof -
  have t: "alien_timer edge_state \<le> 1" "alien_timer (edge_state\<lparr>alien_direction := - 1\<rparr>) \<le> 1"
    by (simp_all add: edge_state_def initial_game_def)
  have d: "alien_direction edge_state = 1 \<or> alien_direction edge_state = - 1"
    "alien_direction (edge_state\<lparr>alien_direction := - 1\<rparr>) = 1 \<or>
     alien_direction (edge_state\<lparr>alien_direction := - 1\<rparr>) = - 1"
    by (simp_all add: edge_state_def initial_game_def)
  have al: "aliens edge_state = map (\<lambda>c. \<lparr>a_x = 70 + 12 * int c, a_y = 20, alive = True\<rparr>) [0..<8] @
                 replicate 40 \<lparr>a_x = 50, a_y = 0, alive = False\<rparr>"
    and dir: "alien_direction edge_state = 1"
    by (simp_all add: edge_state_def initial_game_def)
  have hit: "\<exists>i<TOTAL_ALIENS. alive (aliens edge_state ! i) \<and>
          ((a_x (aliens edge_state ! i) \<ge> 152 \<and> alien_direction edge_state = 1) \<or>
           (a_x (aliens edge_state ! i) \<le> 0 \<and> alien_direction edge_state = - 1))"
    by (rule exI [of _ 7]) (simp add: al dir TOTAL_ALIENS_48 nth_append)
  have "i < TOTAL_ALIENS \<Longrightarrow> alive (aliens edge_state ! i) \<Longrightarrow> 0 < a_x (aliens edge_state ! i)" for i
    by (simp add: al TOTAL_ALIENS_48 nth_append split: if_splits)
  then have nohit: "\<not> (\<exists>i<TOTAL_ALIENS. alive (aliens (edge_state\<lparr>alien_direction := - 1\<rparr>) ! i) \<and>
          ((a_x (aliens (edge_state\<lparr>alien_direction := - 1\<rparr>) ! i) \<ge> 152 \<and>
            alien_direction (edge_state\<lparr>alien_direction := - 1\<rparr>) = 1) \<or>
           (a_x (aliens (edge_state\<lparr>alien_direction := - 1\<rparr>) ! i) \<le> 0 \<and>
            alien_direction (edge_state\<lparr>alien_direction := - 1\<rparr>) = - 1)))"
    by fastforce
  show ?thesis
    using update_aliens_step [OF t(1) d(1)] update_aliens_step [OF t(2) d(2)] hit nohit
    by (simp add: al dir)
qed

text \<open>
  C6. For \<open>min \<le> max\<close> whose range \<open>max - min + 1\<close> fits the \<open>uint32_t\<close> it is cast to,
  \<open>random_int(min, max)\<close> does not trap, replaces the seed by
  \<open>(seed * 1103515245 + 12345) & 0x7fffffff\<close> and returns \<open>min\<close> plus the new seed modulo
  \<open>max - min + 1\<close>, which lies between \<open>min\<close> and \<open>max\<close>, both included. In a run of
  such calls the seed after \<open>n\<close> calls is the recurrence applied \<open>n\<close> times to the initial
  seed, and the value of each call is computed from the initial seed, the number of the call
  and the bounds of that call alone.
\<close>

theorem random_int_spec:
  assumes "mn \<le> mx" and "mx - mn + 1 < 2 ^ 32"
    and "\<forall>(a, b) \<in> set rs. a \<le> b \<and> b - a + 1 < 2 ^ 32"
  shows "random_int mn mx seed = Some (mn + uint (lcg seed) mod (mx - mn + 1), lcg seed) \<and>
         mn \<le> mn + uint (lcg seed) mod (mx - mn + 1) \<and>
         mn + uint (lcg seed) mod (mx - mn + 1) \<le> mx \<and>
         random_ints rs seed =
           Some (map (nth_random rs seed) [0..<length rs], (lcg ^^ length rs) seed)"
  using random_int_eq [OF assms(1,2)] random_int_range [OF assms(1)] random_ints_eq [OF assms(3)]
  by simp

theorem random_int_spec_witness:
  "random_int 0 159 1 = Some (70, 1103527590) \<and>
   random_ints [(0, 159), (1, 3)] 1 = Some ([70, 1], 377401575)"
  using random_int_spec [of 0 159 "[(0, 159), (1, 3)]" 1]
  by (simp add: lcg_def nth_random_def random_int_def)

text \<open>
  C7. In every reachable state, that is after \<open>start\<close> and at the end of every frame,
  \<open>aliens_left\<close> is the number of slots with \<open>alive\<close> set. \<open>init_aliens\<close> establishes this
  on an array of \<open>TOTAL_ALIENS\<close> slots when all \<open>ALIEN_COLS\<close> columns are in use (which is
  so in every call: \<open>start\<close> and \<open>next_wave\<close> set the columns to \<open>ALIEN_COLS\<close> and nothing
  changes them); \<open>check_collisions\<close> preserves it, its hit path lowering both sides by one;
  \<open>next_wave\<close> establishes it.
\<close>

theorem aliens_left_counts_alive:
  "(reachable s \<longrightarrow> aliens_left s = alive_count s) \<and>
   (length (aliens t) = TOTAL_ALIENS \<and> current_alien_cols t = ALIEN_COLS \<longrightarrow>
      aliens_left (init_aliens t) = alive_count (init_aliens t)) \<and>
   (length (aliens t) = TOTAL_ALIENS \<and> aliens_left t = alive_count t \<longrightarrow>
      aliens_left (check_collisions t) = alive_count (check_collisions t)) \<and>
   (i < TOTAL_ALIENS \<and> length (aliens t) = TOTAL_ALIENS \<and> alive (aliens t ! i) \<and>
    aliens_left t = alive_count t \<longrightarrow>
      aliens_left (bullet_hit i t) = aliens_left t - 1 \<and>
      aliens_left (bullet_hit i t) = alive_count (bullet_hit i t)) \<and>
   (length (aliens t) = TOTAL_ALIENS \<longrightarrow>
      aliens_left (next_wave t) = alive_count (next_wave t))"
  using reachable_inv [of s] init_aliens_count(1) [of t] check_collisions_count [of t]
    bullet_hit_count(1,2) [of i t] next_wave_count [of t]
  by (simp add: game_inv_def)

theorem aliens_left_counts_alive_witness:
  "aliens_left (the (update BUTTON_1 0 (the (start initial_game)))) =
     alive_count (the (update BUTTON_1 0 (the (start initial_game)))) \<and>
   aliens_left (init_aliens hit_state) = 8 \<and> alive_count (init_aliens hit_state) = 8 \<and>
   aliens_left (check_collisions hit_state) = 7 \<and> alive_count (check_collisions hit_state) = 7 \<and>
   aliens_left (bullet_hit 2 hit_state) = 7 \<and> alive_count (bullet_hit 2 hit_state) = 7 \<and>
   aliens_left (next_wave hit_state) = 8 \<and> alive_count (next_wave hit_state) = 8"
proof -
  obtain s where s: "start initial_game = Some s" using start_total by blast
  obtain s' where s': "update BUTTON_1 0 s = Some s'" using update_total by blast
  have r: "reachable s'" using reachable_start [OF s] s' by (rule reachable_update)
  have h: "length (aliens hit_state) = TOTAL_ALIENS" "current_alien_cols hit_state = ALIEN_COLS"
    "aliens_left hit_state = alive_count hit_state" "2 < TOTAL_ALIENS"
    "alive (aliens hit_state ! 2)"
    by code_simp+
  have v: "aliens_left (init_aliens hit_state) = 8" "aliens_left (check_collisions hit_state) = 7"
    "aliens_left hit_state = 8" "aliens_left (next_wave hit_state) = 8"
    by code_simp+
  show ?thesis
    using aliens_left_counts_alive [of s' hit_state 2] r h v by (simp add: s s')
qed

text \<open>
  C8. In every reachable state, that is after \<open>start\<close> and after every frame,
  \<open>0 \<le> player.x \<le> 152\<close> and \<open>0 \<le> player.y \<le> 152\<close>. After \<open>update_player\<close>, whatever
  the gamepad holds and from any state, \<open>0 \<le> player.x \<le> 152\<close>; and where a frame calls it
  (on the state the star field leaves), \<open>0 \<le> player.y \<le> 152\<close> as well.
\<close>

theorem player_stays_on_screen:
  assumes "reachable s"
  shows "0 \<le> p_x (player s) \<and> p_x (player s) \<le> 152 \<and>
         0 \<le> p_y (player s) \<and> p_y (player s) \<le> 152 \<and>
         (\<forall>gamepad t. 0 \<le> p_x (player (update_player gamepad t)) \<and>
                       p_x (player (update_player gamepad t)) \<le> 152) \<and>
         (\<forall>gamepad s1. draw_background_stars s = Some s1 \<longrightarrow>
            0 \<le> p_y (player (update_player gamepad s1)) \<and>
            p_y (player (update_player gamepad s1)) \<le> 152)"
proof -
  have inv: "game_inv s" using assms by (rule reachable_inv)
  have "0 \<le> p_y (player (update_player gamepad s1)) \<and>
        p_y (player (update_player gamepad s1)) \<le> 152"
    if "draw_background_stars s = Some s1" for gamepad s1
    using draw_background_stars_inv [OF inv that]
    by (simp add: game_inv_def update_player_fields)
  then show ?thesis
    using inv update_player_x by (simp add: game_inv_def)
qed

theorem player_stays_on_screen_witness:
  "reachable (the (update BUTTON_1 0 (the (start initial_game)))) \<and>
   0 \<le> p_x (player (the (update BUTTON_1 0 (the (start initial_game))))) \<and>
   p_x (player (the (update BUTTON_1 0 (the (start initial_game))))) \<le> 152 \<and>
   0 \<le> p_y (player (the (update BUTTON_1 0 (the (start initial_game))))) \<and>
   p_y (player (the (update BUTTON_1 0 (the (start initial_game))))) \<le> 152"
proof -
  obtain s where s: "start initial_game = Some s" using start_total by blast
  obtain s' where s': "update BUTTON_1 0 s = Some s'" using update_total by blast
  have r: "reachable s'" using reachable_start [OF s] s' by (rule reachable_update)
  show ?thesis using r player_stays_on_screen [OF r] by (simp add: s s')
qed

text \<open>
  C9. With a pool of \<open>TOTAL_ALIENS\<close> slots: if every slot is active, \<open>create_explosion\<close>
  returns the state as it was; otherwise the state changes in exactly one slot of the pool,
  the first inactive one, which becomes \<open>(x, y, life = 10, active)\<close>. The pool keeps its
  \<open>TOTAL_ALIENS\<close> slots either way.
\<close>

theorem create_explosion_first_free:
  assumes "length (explosions s) = TOTAL_ALIENS"
  shows "length (explosions (create_explosion x y s)) = TOTAL_ALIENS \<and>
    (if \<forall>i<TOTAL_ALIENS. e_active (explosions s ! i)
     then create_explosion x y s = s
     else \<exists>k<TOTAL_ALIENS. \<not> e_active (explosions s ! k) \<and>
            (\<forall>j<k. e_active (explosions s ! j)) \<and>
            create_explosion x y s =
              s\<lparr>explosions := (explosions s)
                   [k := \<lparr>e_x = x, e_y = y, life = 10, e_active = True\<rparr>]\<rparr>)"
proof (cases "\<forall>i<TOTAL_ALIENS. e_active (explosions s ! i)")
  case True
  then have "create_explosion x y s = s"
    unfolding create_explosion_def by (intro create_explosion_from_none) simp
  then show ?thesis using True assms by simp
next
  case False
  then have "\<exists>k. k < TOTAL_ALIENS \<and> \<not> e_active (explosions s ! k)" by blast
  then obtain k where k: "k < TOTAL_ALIENS \<and> \<not> e_active (explosions s ! k)"
    and least: "\<forall>j<k. \<not> (j < TOTAL_ALIENS \<and> \<not> e_active (explosions s ! j))"
    unfolding exists_least_iff [of "\<lambda>k. k < TOTAL_ALIENS \<and> \<not> e_active (explosions s ! k)"]
    by blast
  have before: "\<forall>j<k. e_active (explosions s ! j)" using k least by auto
  have eq: "create_explosion x y s =
      s\<lparr>explosions := (explosions s)[k := \<lparr>e_x = x, e_y = y, life = 10, e_active = True\<rparr>]\<rparr>"
    unfolding create_explosion_def
    using k before create_explosion_from_first [of 0 k s x y]
    by (simp add: explosion_all_fields EXPLOSION_DURATION_def)
  have "\<exists>k<TOTAL_ALIENS. \<not> e_active (explosions s ! k) \<and>
            (\<forall>j<k. e_active (explosions s ! j)) \<and>
            create_explosion x y s =
              s\<lparr>explosions := (explosions s)
                   [k := \<lparr>e_x = x, e_y = y, life = 10, e_active = True\<rparr>]\<rparr>"
    using k before eq by blast
  moreover have "length (explosions (create_explosion x y s)) = TOTAL_ALIENS"
    using assms by (simp add: eq)
  ultimately show ?thesis using False by (simp only: if_not_P simp_thms)
qed

theorem create_explosion_first_free_witness:
  "create_explosion 44 32 two_explosions =
     two_explosions\<lparr>explosions := (explosions two_explosions)
       [2 := \<lparr>e_x = 44, e_y = 32, life = 10, e_active = True\<rparr>]\<rparr> \<and>
   create_explosion 44 32 full_explosions = full_explosions"
proof -
  have len: "length (explosions two_explosions) = TOTAL_ALIENS"
    "length (explosions full_explosions) = TOTAL_ALIENS"
    by (simp_all add: two_explosions_def full_explosions_def TOTAL_ALIENS_48)
  have full: "\<forall>i<TOTAL_ALIENS. e_active (explosions full_explosions ! i)"
    by (simp add: full_explosions_def TOTAL_ALIENS_48)
  have ex: "explosions two_explosions =
      replicate 2 \<lparr>e_x = 20, e_y = 20, life = 7, e_active = True\<rparr> @
      replicate 46 \<lparr>e_x = 0, e_y = 0, life = 0, e_active = False\<rparr>"
    by (simp add: two_explosions_def)
  have free: "\<not> (\<forall>i<TOTAL_ALIENS. e_active (explosions two_explosions ! i))"
    by (auto simp: ex TOTAL_ALIENS_48 nth_append intro!: exI [of _ 2])
  obtain k where k: "k < TOTAL_ALIENS" "\<not> e_active (explosions two_explosions ! k)"
    "\<forall>j<k. e_active (explosions two_explosions ! j)"
    and eq: "create_explosion 44 32 two_explosions =
      two_explosions\<lparr>explosions := (explosions two_explosions)
        [k := \<lparr>e_x = 44, e_y = 32, life = 10, e_active = True\<rparr>]\<rparr>"
    using create_explosion_first_free [OF len(1), of 44 32] free by auto
  have "\<not> k < 2" using k(2) by (auto simp: ex nth_append)
  moreover have "\<not> 2 < k"
  proof
    assume "2 < k"
    then have "e_active (explosions two_explosions ! 2)" using k(3) by blast
    then show False by (simp add: ex nth_append)
  qed
  ultimately have "k = 2" by linarith
  then show ?thesis
    using eq create_explosion_first_free [OF len(2), of 44 32] full by simp
qed

text \<open>
  C10. \<open>start\<close> sets \<open>player.y\<close> to 140; \<open>update_player\<close> leaves \<open>player.y\<close> as it is, and
  so does a whole frame, from any state; hence \<open>player.y = 140\<close> in every reachable state.
\<close>

theorem player_y_140:
  assumes "reachable s"
  shows "p_y (player s) = 140 \<and>
         (\<forall>s0 s1. start s0 = Some s1 \<longrightarrow> p_y (player s1) = 140) \<and>
         (\<forall>gamepad t. p_y (player (update_player gamepad t)) = p_y (player t)) \<and>
         (\<forall>gamepad mouse_buttons t t'. update gamepad mouse_buttons t = Some t' \<longrightarrow>
            p_y (player t') = p_y (player t))"
  using reachable_inv [OF assms] start_player update_player_y
  by (simp add: game_inv_def update_player_fields)

theorem player_y_140_witness:
  "reachable (the (update BUTTON_RIGHT 0 (the (start initial_game)))) \<and>
   p_y (player (the (update BUTTON_RIGHT 0 (the (start initial_game))))) = 140"
proof -
  obtain s where s: "start initial_game = Some s" using start_total by blast
  obtain s' where s': "update BUTTON_RIGHT 0 s = Some s'" using update_total by blast
  have r: "reachable s'" using reachable_start [OF s] s' by (rule reachable_update)
  show ?thesis using r player_y_140 [OF r] by (simp add: s s')
qed

end
